theory Spec2Isabelle
  imports Main "HOL-Library.AList"
begin

section \<open>JavaScript text and values\<close>

text \<open>
  A JavaScript string is a sequence of UTF-16 code units; a code unit is modelled as a
  natural number. \<open>asc\<close> turns an ASCII literal into its code units.
\<close>

type_synonym jstring = "nat list"

definition asc :: "string \<Rightarrow> jstring" where
  "asc = map of_char"

text \<open>
  The values \<open>JSON.parse\<close> can return. A number is represented by the text that
  \<open>Number::toString\<close> gives for it (\<open>1\<close>, \<open>2.5\<close>, \<open>1e+21\<close>, \<open>Infinity\<close>; the two zeros
  are both \<open>0\<close>, and nothing in the program tells them apart). An object is the list of
  its own properties, each key once, in the order \<open>JSON.parse\<close> met the keys; the program
  reads properties by name only, so the order decides nothing (JavaScript itself would
  enumerate integer-like keys first). \<open>undefined\<close> is not a JSON value: where the program
  can meet it, the model uses \<open>jsval option\<close> with \<open>None\<close> for \<open>undefined\<close>.
\<close>

datatype jsval =
    JNull
  | JBool bool
  | JNum jstring
  | JStr jstring
  | JArr "jsval list"
  | JObj "(jstring \<times> jsval) list"

text \<open>
  What a \<open>catch\<close> can receive: the three kinds of exception the language and the
  program's own \<open>throw\<close> raise, a rejected HTTP request, and a failed file operation.
\<close>

datatype js_error = TypeError | SyntaxError | Error | RequestError | SystemError

definition is_zero :: "jstring \<Rightarrow> bool" where
  "is_zero n = (n = asc ''0'')"

definition is_finite :: "jstring \<Rightarrow> bool" where
  "is_finite n = (n \<noteq> asc ''Infinity'' \<and> n \<noteq> asc ''-Infinity'')"

fun truthy :: "jsval \<Rightarrow> bool" where
  "truthy JNull = False"
| "truthy (JBool b) = b"
| "truthy (JNum n) = (\<not> is_zero n)"
| "truthy (JStr s) = (s \<noteq> [])"
| "truthy (JArr xs) = True"
| "truthy (JObj kvs) = True"

definition truthy_opt :: "jsval option \<Rightarrow> bool" where
  "truthy_opt v = (case v of None \<Rightarrow> False | Some w \<Rightarrow> truthy w)"

text \<open>
  \<open>get_field v k\<close> is the property read \<open>v.k\<close> for the keys the program reads
  (\<open>choices\<close>, \<open>message\<close>, \<open>content\<close>, \<open>news\<close>, \<open>title\<close>, \<open>summary\<close>, \<open>type\<close>), none
  of which a prototype defines: \<open>null.k\<close> throws a TypeError, an object gives its own
  property or \<open>undefined\<close>, every other value gives \<open>undefined\<close>.
\<close>

fun get_field :: "jsval \<Rightarrow> jstring \<Rightarrow> js_error + jsval option" where
  "get_field JNull k = Inl TypeError"
| "get_field (JObj kvs) k = Inr (map_of kvs k)"
| "get_field v k = Inr None"

definition get_field_opt :: "jsval option \<Rightarrow> jstring \<Rightarrow> js_error + jsval option" where
  "get_field_opt v k = (case v of None \<Rightarrow> Inl TypeError | Some w \<Rightarrow> get_field w k)"

section \<open>JSON.parse\<close>

text \<open>
  A recursive-descent parser for the JSON grammar (ECMA-404), as \<open>JSON.parse\<close> applies
  it to a string. A duplicate key keeps the place of its first occurrence and the value
  of its last one. The rounding of a number literal to a double is floating-point
  arithmetic and is not modelled: it is the parameter \<open>num\<close>, which maps a literal to the
  \<open>Number::toString\<close> text of the double it denotes (\<open>1.0\<close> to \<open>1\<close>, \<open>1e999\<close> to
  \<open>Infinity\<close>).
\<close>

definition json_ws :: "nat \<Rightarrow> bool" where
  "json_ws c = (c = 0x20 \<or> c = 0x09 \<or> c = 0x0A \<or> c = 0x0D)"

definition skip_ws :: "jstring \<Rightarrow> jstring" where
  "skip_ws = dropWhile json_ws"

definition is_digit :: "nat \<Rightarrow> bool" where
  "is_digit c = (0x30 \<le> c \<and> c \<le> 0x39)"

definition hex_digit :: "nat \<Rightarrow> nat option" where
  "hex_digit c =
     (if 0x30 \<le> c \<and> c \<le> 0x39 then Some (c - 0x30)
      else if 0x41 \<le> c \<and> c \<le> 0x46 then Some (c - 0x41 + 10)
      else if 0x61 \<le> c \<and> c \<le> 0x66 then Some (c - 0x61 + 10)
      else None)"

definition hex4 :: "nat \<Rightarrow> nat \<Rightarrow> nat \<Rightarrow> nat \<Rightarrow> nat option" where
  "hex4 a b c d =
     (case (hex_digit a, hex_digit b, hex_digit c, hex_digit d) of
        (Some h3, Some h2, Some h1, Some h0) \<Rightarrow> Some (((h3 * 16 + h2) * 16 + h1) * 16 + h0)
      | _ \<Rightarrow> None)"

definition unescape :: "nat \<Rightarrow> nat option" where
  "unescape e =
     (if e = 0x22 then Some 0x22
      else if e = 0x5C then Some 0x5C
      else if e = 0x2F then Some 0x2F
      else if e = 0x62 then Some 0x08
      else if e = 0x66 then Some 0x0C
      else if e = 0x6E then Some 0x0A
      else if e = 0x72 then Some 0x0D
      else if e = 0x74 then Some 0x09
      else None)"

definition cons_chars :: "nat \<Rightarrow> (jstring \<times> jstring) option \<Rightarrow> (jstring \<times> jstring) option" where
  "cons_chars c r = (case r of None \<Rightarrow> None | Some (str, rest) \<Rightarrow> Some (c # str, rest))"

text \<open>
  \<open>string_chars\<close> reads a string literal after its opening quote and returns the decoded
  string and the input after the closing quote.
\<close>

fun string_chars :: "jstring \<Rightarrow> (jstring \<times> jstring) option" where
  "string_chars [] = None"
| "string_chars (c # cs) =
     (if c = 0x22 then Some ([], cs)
      else if c = 0x5C then
        (case cs of
           [] \<Rightarrow> None
         | e # es \<Rightarrow>
             if e = 0x75 then
               (case es of
                  h3 # h2 # h1 # h0 # rest \<Rightarrow>
                    (case hex4 h3 h2 h1 h0 of
                       None \<Rightarrow> None
                     | Some u \<Rightarrow> cons_chars u (string_chars rest))
                | _ \<Rightarrow> None)
             else
               (case unescape e of
                  None \<Rightarrow> None
                | Some u \<Rightarrow> cons_chars u (string_chars es)))
      else if c < 0x20 then None
      else cons_chars c (string_chars cs))"

definition digits1 :: "jstring \<Rightarrow> (jstring \<times> jstring) option" where
  "digits1 s =
     (if takeWhile is_digit s = [] then None
      else Some (takeWhile is_digit s, dropWhile is_digit s))"

definition int_part :: "jstring \<Rightarrow> (jstring \<times> jstring) option" where
  "int_part s =
     (case s of
        [] \<Rightarrow> None
      | c # cs \<Rightarrow>
          if c = 0x30 then Some ([c], cs)
          else if is_digit c then Some (c # takeWhile is_digit cs, dropWhile is_digit cs)
          else None)"

definition frac_part :: "jstring \<Rightarrow> (jstring \<times> jstring) option" where
  "frac_part s =
     (case s of
        [] \<Rightarrow> Some ([], [])
      | c # cs \<Rightarrow>
          if c = 0x2E then
            (case digits1 cs of None \<Rightarrow> None | Some (d, r) \<Rightarrow> Some (c # d, r))
          else Some ([], s))"

definition exp_part :: "jstring \<Rightarrow> (jstring \<times> jstring) option" where
  "exp_part s =
     (case s of
        [] \<Rightarrow> Some ([], [])
      | c # cs \<Rightarrow>
          if c = 0x65 \<or> c = 0x45 then
            (case cs of
               [] \<Rightarrow> None
             | g # gs \<Rightarrow>
                 if g = 0x2B \<or> g = 0x2D then
                   (case digits1 gs of None \<Rightarrow> None | Some (d, r) \<Rightarrow> Some (c # g # d, r))
                 else
                   (case digits1 cs of None \<Rightarrow> None | Some (d, r) \<Rightarrow> Some (c # d, r)))
          else Some ([], s))"

definition unsigned_number :: "jstring \<Rightarrow> (jstring \<times> jstring) option" where
  "unsigned_number s =
     (case int_part s of
        None \<Rightarrow> None
      | Some (i, r1) \<Rightarrow>
          (case frac_part r1 of
             None \<Rightarrow> None
           | Some (f, r2) \<Rightarrow>
               (case exp_part r2 of
                  None \<Rightarrow> None
                | Some (e, r3) \<Rightarrow> Some (i @ f @ e, r3))))"

definition json_number :: "jstring \<Rightarrow> (jstring \<times> jstring) option" where
  "json_number s =
     (case s of
        [] \<Rightarrow> None
      | c # cs \<Rightarrow>
          if c = 0x2D then
            (case unsigned_number cs of None \<Rightarrow> None | Some (l, r) \<Rightarrow> Some (c # l, r))
          else unsigned_number s)"

definition starts_with :: "jstring \<Rightarrow> jstring \<Rightarrow> bool" where
  "starts_with p s = (take (length p) s = p)"

text \<open>
  The parser's result: the value and the rest of the input, a syntax error (\<open>Bad\<close>), or
  \<open>Starved\<close> when the recursion budget ran out. The budget is a list that loses an
  element with every value or element the parser enters; \<open>JSON_parse\<close> starts with one
  more element than the text has code units, which is always enough
  (\<open>JSON_parse_never_starved\<close> below).
\<close>

datatype 'a presult = Ok 'a jstring | Bad | Starved

fun parse_value :: "(jstring \<Rightarrow> jstring) \<Rightarrow> jstring \<Rightarrow> jstring \<Rightarrow> jsval presult"
  and parse_elems :: "(jstring \<Rightarrow> jstring) \<Rightarrow> jstring \<Rightarrow> jstring \<Rightarrow> jsval list presult"
  and parse_members ::
    "(jstring \<Rightarrow> jstring) \<Rightarrow> jstring \<Rightarrow> (jstring \<times> jsval) list \<Rightarrow> jstring
      \<Rightarrow> (jstring \<times> jsval) list presult"
where
  "parse_value num [] s = Starved"
| "parse_value num (x # fuel) s =
     (case skip_ws s of
        [] \<Rightarrow> Bad
      | c # cs \<Rightarrow>
          if c = 0x5B then
            (case skip_ws cs of
               [] \<Rightarrow> Bad
             | d # ds \<Rightarrow>
                 if d = 0x5D then Ok (JArr []) ds
                 else
                   (case parse_elems num fuel (d # ds) of
                      Ok vs r \<Rightarrow> Ok (JArr vs) r
                    | Bad \<Rightarrow> Bad
                    | Starved \<Rightarrow> Starved))
          else if c = 0x7B then
            (case skip_ws cs of
               [] \<Rightarrow> Bad
             | d # ds \<Rightarrow>
                 if d = 0x7D then Ok (JObj []) ds
                 else
                   (case parse_members num fuel [] (d # ds) of
                      Ok kvs r \<Rightarrow> Ok (JObj kvs) r
                    | Bad \<Rightarrow> Bad
                    | Starved \<Rightarrow> Starved))
          else if c = 0x22 then
            (case string_chars cs of
               None \<Rightarrow> Bad
             | Some (str, r) \<Rightarrow> Ok (JStr str) r)
          else if starts_with (asc ''true'') (c # cs) then Ok (JBool True) (drop 4 (c # cs))
          else if starts_with (asc ''false'') (c # cs) then Ok (JBool False) (drop 5 (c # cs))
          else if starts_with (asc ''null'') (c # cs) then Ok JNull (drop 4 (c # cs))
          else
            (case json_number (c # cs) of
               None \<Rightarrow> Bad
             | Some (lit, r) \<Rightarrow> Ok (JNum (num lit)) r))"
| "parse_elems num fuel s =
     (case parse_value num fuel s of
        Ok v r \<Rightarrow>
          (case skip_ws r of
             [] \<Rightarrow> Bad
           | c # cs \<Rightarrow>
               if c = 0x2C then
                 (case fuel of
                    [] \<Rightarrow> Starved
                  | y # fuel' \<Rightarrow>
                      (case parse_elems num fuel' cs of
                         Ok vs r' \<Rightarrow> Ok (v # vs) r'
                       | Bad \<Rightarrow> Bad
                       | Starved \<Rightarrow> Starved))
               else if c = 0x5D then Ok [v] cs
               else Bad)
      | Bad \<Rightarrow> Bad
      | Starved \<Rightarrow> Starved)"
| "parse_members num fuel acc s =
     (case skip_ws s of
        [] \<Rightarrow> Bad
      | c # cs \<Rightarrow>
          if c = 0x22 then
            (case string_chars cs of
               None \<Rightarrow> Bad
             | Some (k, r) \<Rightarrow>
                 (case skip_ws r of
                    [] \<Rightarrow> Bad
                  | c2 # r2 \<Rightarrow>
                      if c2 = 0x3A then
                        (case parse_value num fuel r2 of
                           Ok v r3 \<Rightarrow>
                             (case skip_ws r3 of
                                [] \<Rightarrow> Bad
                              | c3 # r4 \<Rightarrow>
                                  if c3 = 0x2C then
                                    (case fuel of
                                       [] \<Rightarrow> Starved
                                     | y # fuel' \<Rightarrow> parse_members num fuel' (AList.update k v acc) r4)
                                  else if c3 = 0x7D then Ok (AList.update k v acc) r4
                                  else Bad)
                         | Bad \<Rightarrow> Bad
                         | Starved \<Rightarrow> Starved)
                      else Bad))
          else Bad)"

definition JSON_parse :: "(jstring \<Rightarrow> jstring) \<Rightarrow> jstring \<Rightarrow> jsval option" where
  "JSON_parse num s =
     (case parse_value num (0 # s) s of
        Ok v r \<Rightarrow> if skip_ws r = [] then Some v else None
      | Bad \<Rightarrow> None
      | Starved \<Rightarrow> None)"

section \<open>String operations of the extractor\<close>

text \<open>The code units \<open>String.prototype.trim\<close> strips: WhiteSpace and LineTerminator.\<close>

definition js_space :: "nat \<Rightarrow> bool" where
  "js_space c =
     ((0x09 \<le> c \<and> c \<le> 0x0D) \<or> c = 0x20 \<or> c = 0xA0 \<or> c = 0x1680
      \<or> (0x2000 \<le> c \<and> c \<le> 0x200A) \<or> c = 0x2028 \<or> c = 0x2029 \<or> c = 0x202F
      \<or> c = 0x205F \<or> c = 0x3000 \<or> c = 0xFEFF)"

definition trim :: "jstring \<Rightarrow> jstring" where
  "trim s = rev (dropWhile js_space (rev (dropWhile js_space s)))"

text \<open>
  \<open>remove_all p s\<close> is \<open>s.replace(/p/g, '')\<close> for a literal, non-empty pattern: the
  matches are found left to right and do not overlap.
\<close>

function remove_all :: "jstring \<Rightarrow> jstring \<Rightarrow> jstring" where
  "remove_all p [] = []"
| "remove_all p (c # cs) =
     (if p \<noteq> [] \<and> starts_with p (c # cs) then remove_all p (drop (length p) (c # cs))
      else c # remove_all p cs)"
  by pat_completeness auto
termination
  by (relation "measure (\<lambda>(p, s). length s)") (auto simp: starts_with_def)

text \<open>
  \<open>indexOf\<close> and \<open>lastIndexOf\<close> for a one-unit search string; \<open>-1\<close> when it is absent.
  \<open>index_from i\<close> scans a suffix that starts at position \<open>i\<close>; \<open>last_index_from i best\<close>
  does the same and keeps the last match seen so far.
\<close>

fun index_from :: "nat \<Rightarrow> nat \<Rightarrow> jstring \<Rightarrow> int" where
  "index_from i c [] = -1"
| "index_from i c (x # xs) = (if x = c then int i else index_from (Suc i) c xs)"

definition indexOf :: "nat \<Rightarrow> jstring \<Rightarrow> int" where
  "indexOf c s = index_from 0 c s"

fun last_index_from :: "nat \<Rightarrow> int \<Rightarrow> nat \<Rightarrow> jstring \<Rightarrow> int" where
  "last_index_from i best c [] = best"
| "last_index_from i best c (x # xs) =
     last_index_from (Suc i) (if x = c then int i else best) c xs"

definition lastIndexOf :: "nat \<Rightarrow> jstring \<Rightarrow> int" where
  "lastIndexOf c s = last_index_from 0 (-1) c s"

text \<open>
  \<open>substring\<close> clamps both indices to the string and swaps them when the first is the
  larger one.
\<close>

definition substring :: "jstring \<Rightarrow> int \<Rightarrow> int \<Rightarrow> jstring" where
  "substring s a b =
     (let n = int (length s);
          a' = min (max a 0) n;
          b' = min (max b 0) n;
          lo = min a' b';
          hi = max a' b'
      in take (nat (hi - lo)) (drop (nat lo) s))"

section \<open>The response extractor (fetchNews, lines 176 to 200)\<close>

definition fence_json :: jstring where
  "fence_json = asc ''```json''"

definition fence :: jstring where
  "fence = asc ''```''"

text \<open>Lines 177 to 188: trim, drop the code fences, cut from the first \<open>{\<close> to the last \<open>}\<close>.\<close>

definition json_slice :: "jstring \<Rightarrow> jstring" where
  "json_slice fullContent =
     (let jsonString = remove_all fence (remove_all fence_json (trim fullContent));
          firstOpen = indexOf 0x7B jsonString;
          lastClose = lastIndexOf 0x7D jsonString
      in if firstOpen \<noteq> -1 \<and> lastClose \<noteq> -1
         then substring jsonString firstOpen (lastClose + 1)
         else jsonString)"

definition isArray :: "jsval option \<Rightarrow> bool" where
  "isArray v = (case v of Some (JArr xs) \<Rightarrow> True | _ \<Rightarrow> False)"

definition array_items :: "jsval option \<Rightarrow> jsval list" where
  "array_items v = (case v of Some (JArr xs) \<Rightarrow> xs | _ \<Rightarrow> [])"

text \<open>Lines 191 to 195, the body of the inner \<open>try\<close>.\<close>

definition parse_news :: "(jstring \<Rightarrow> jstring) \<Rightarrow> jstring \<Rightarrow> js_error + jsval list" where
  "parse_news num jsonString =
     (case JSON_parse num jsonString of
        None \<Rightarrow> Inl SyntaxError
      | Some parsed \<Rightarrow>
          (case get_field parsed (asc ''news'') of
             Inl e \<Rightarrow> Inl e
           | Inr news \<Rightarrow>
               if \<not> truthy_opt news \<or> \<not> isArray news then Inl Error
               else Inr (array_items news)))"

text \<open>
  Lines 177 to 200: the inner \<open>catch\<close> turns every exception of the \<open>try\<close> into the
  result \<open>null\<close>, which is \<open>None\<close> here.
\<close>

definition extract_news :: "(jstring \<Rightarrow> jstring) \<Rightarrow> jstring \<Rightarrow> jsval list option" where
  "extract_news num fullContent =
     (case parse_news num (json_slice fullContent) of
        Inl e \<Rightarrow> None
      | Inr news \<Rightarrow> Some news)"

section \<open>Text of a value\<close>

definition and_then :: "'e + 'a \<Rightarrow> ('a \<Rightarrow> 'e + 'b) \<Rightarrow> 'e + 'b" where
  "and_then m f = (case m of Inl e \<Rightarrow> Inl e | Inr a \<Rightarrow> f a)"

text \<open>
  \<open>ToString\<close> is the conversion a template literal and \<open>Array.prototype.join\<close> apply.
  An array is joined with commas, \<open>null\<close> elements giving the empty text. A plain object
  gives \<open>[object Object]\<close>, unless it has an own property \<open>toString\<close>: a parsed value is
  never callable, so the conversion throws a TypeError.
\<close>

fun ToString :: "jsval \<Rightarrow> js_error + jstring"
  and join_items :: "jstring \<Rightarrow> jsval list \<Rightarrow> js_error + jstring"
where
  "ToString JNull = Inr (asc ''null'')"
| "ToString (JBool b) = Inr (if b then asc ''true'' else asc ''false'')"
| "ToString (JNum n) = Inr n"
| "ToString (JStr s) = Inr s"
| "ToString (JArr xs) = join_items (asc '','') xs"
| "ToString (JObj kvs) =
     (if map_of kvs (asc ''toString'') \<noteq> None then Inl TypeError
      else Inr (asc ''[object Object]''))"
| "join_items sep [] = Inr []"
| "join_items sep (x # xs) =
     (case (if x = JNull then Inr [] else ToString x) of
        Inl e \<Rightarrow> Inl e
      | Inr a \<Rightarrow>
          if xs = [] then Inr a
          else
            (case join_items sep xs of
               Inl e \<Rightarrow> Inl e
             | Inr b \<Rightarrow> Inr (a @ sep @ b)))"

definition ToString_opt :: "jsval option \<Rightarrow> js_error + jstring" where
  "ToString_opt v = (case v of None \<Rightarrow> Inr (asc ''undefined'') | Some w \<Rightarrow> ToString w)"

text \<open>\<open>v.join(sep)\<close>: only an array has the method.\<close>

definition join_method :: "jsval \<Rightarrow> jstring \<Rightarrow> js_error + jstring" where
  "join_method v sep = (case v of JArr xs \<Rightarrow> join_items sep xs | _ \<Rightarrow> Inl TypeError)"

text \<open>
  The spread \<open>[...v]\<close>: an array gives its elements, a string its code points (a
  surrogate pair is one element), every other value is not iterable.
\<close>

fun code_points :: "jstring \<Rightarrow> jstring list" where
  "code_points [] = []"
| "code_points [c] = [[c]]"
| "code_points (c # d # cs) =
     (if 0xD800 \<le> c \<and> c \<le> 0xDBFF \<and> 0xDC00 \<le> d \<and> d \<le> 0xDFFF
      then [c, d] # code_points cs
      else [c] # code_points (d # cs))"

definition spread :: "jsval \<Rightarrow> js_error + jsval list" where
  "spread v =
     (case v of
        JArr xs \<Rightarrow> Inr xs
      | JStr s \<Rightarrow> Inr (map JStr (code_points s))
      | _ \<Rightarrow> Inl TypeError)"

section \<open>The two history files\<close>

text \<open>
  A file is modelled by what reading and parsing it gives: it is absent, or
  \<open>readFileSync\<close> or \<open>JSON.parse\<close> throws on it (\<open>Corrupt\<close>), or it holds a JSON document.
  \<open>json_stored v\<close> is the document that \<open>JSON.parse\<close> reads back from the text
  \<open>JSON.stringify(v, null, 2)\<close>: a number that is not finite is written as \<open>null\<close>, every
  other number as its \<open>Number::toString\<close> text, which denotes the same number;
  \<open>undefined\<close> in an array is written as \<open>null\<close>.
\<close>

datatype json_file = Absent | Corrupt | Document jsval

fun json_stored :: "jsval \<Rightarrow> jsval" where
  "json_stored JNull = JNull"
| "json_stored (JBool b) = JBool b"
| "json_stored (JNum n) = (if is_finite n then JNum n else JNull)"
| "json_stored (JStr s) = JStr s"
| "json_stored (JArr xs) = JArr (map json_stored xs)"
| "json_stored (JObj kvs) = JObj (map (\<lambda>kv. (fst kv, json_stored (snd kv))) kvs)"

definition stored_elem :: "jsval option \<Rightarrow> jsval" where
  "stored_elem v = (case v of None \<Rightarrow> JNull | Some w \<Rightarrow> json_stored w)"

definition stored_array :: "jsval option list \<Rightarrow> jsval" where
  "stored_array xs = JArr (map stored_elem xs)"

definition read_json :: "json_file \<Rightarrow> js_error + jsval" where
  "read_json f =
     (case f of
        Absent \<Rightarrow> Inl SystemError
      | Corrupt \<Rightarrow> Inl SyntaxError
      | Document v \<Rightarrow> Inr v)"

text \<open>
  What the disk does with one \<open>writeFileSync\<close>: it replaces the file, or the call throws
  and leaves the file in some state.
\<close>

datatype write_outcome = Written | WriteFails json_file

datatype jsdate = Date int | InvalidDate

definition new_Date :: "int \<Rightarrow> jsdate" where
  "new_Date t = (if \<bar>t\<bar> \<le> 8640000000000000 then Date t else InvalidDate)"

text \<open>
  The state of the process: the two files (\<open>history.json\<close> and
  \<open>dashboard_history.json\<close>), the module variables \<open>nextRunTime\<close> and
  \<open>currentGeneration\<close>, and the mails the transport accepted. The log buffer and the
  console are not part of the model.
\<close>

record bot =
  history_file :: json_file
  dashboard_file :: json_file
  nextRunTime :: "jsdate option"
  currentGeneration :: "jsval option"
  outbox :: "jstring list"

definition initial_bot :: bot where
  "initial_bot =
     \<lparr>history_file = Absent, dashboard_file = Absent, nextRunTime = None,
      currentGeneration = Some (JStr []), outbox = []\<rparr>"

section \<open>History management (lines 81 to 115)\<close>

definition getPastHeadlines :: "bot \<Rightarrow> jsval" where
  "getPastHeadlines s =
     (if history_file s \<noteq> Absent then
        (case read_json (history_file s) of
           Inr v \<Rightarrow> v
         | Inl e \<Rightarrow> JArr [])
      else JArr [])"

text \<open>
  Lines 45 to 50, the dashboard route's read of \<open>dashboard_history.json\<close>: the value it
  serves as \<open>history\<close>. Its \<open>catch\<close> is empty, so an unreadable file leaves the initial
  \<open>[]\<close>.
\<close>

definition api_data_history :: "bot \<Rightarrow> jsval" where
  "api_data_history s =
     (if dashboard_file s \<noteq> Absent then
        (case read_json (dashboard_file s) of
           Inr v \<Rightarrow> v
         | Inl e \<Rightarrow> JArr [])
      else JArr [])"

text \<open>\<open>xs.slice(xs.length - n)\<close> under the guard \<open>xs.length > n\<close>.\<close>

definition keep_last :: "nat \<Rightarrow> 'a list \<Rightarrow> 'a list" where
  "keep_last n xs = (if length xs > n then drop (length xs - n) xs else xs)"

text \<open>\<open>newsItems.map(n => n.title)\<close>: the first \<open>null\<close> item throws.\<close>

fun titles_of :: "jsval list \<Rightarrow> js_error + jsval option list" where
  "titles_of [] = Inr []"
| "titles_of (n # ns) =
     (case get_field n (asc ''title'') of
        Inl e \<Rightarrow> Inl e
      | Inr t \<Rightarrow>
          (case titles_of ns of
             Inl e \<Rightarrow> Inl e
           | Inr ts \<Rightarrow> Inr (t # ts)))"

text \<open>Lines 96 to 99: the array that line 100 writes.\<close>

definition new_history :: "jsval list \<Rightarrow> bot \<Rightarrow> js_error + jsval option list" where
  "new_history newsItems s =
     (let history = getPastHeadlines s in
      and_then (titles_of newsItems) (\<lambda>newTitles.
      and_then (spread history) (\<lambda>old.
        Inr (keep_last 50 (map Some old @ newTitles)))))"

text \<open>Lines 104 to 109: the array that line 110 writes.\<close>

definition new_dashboard :: "jsval list \<Rightarrow> bot \<Rightarrow> js_error + jsval option list" where
  "new_dashboard newsItems s =
     and_then (if dashboard_file s \<noteq> Absent then read_json (dashboard_file s) else Inr (JArr []))
       (\<lambda>dashboardHistory.
     and_then (spread dashboardHistory) (\<lambda>old.
       Inr (keep_last 20 (map Some (old @ newsItems)))))"

text \<open>
  \<open>saveHeadlines_try\<close> is the body of the \<open>try\<close>: an exception leaves what was written
  before it. \<open>saveHeadlines\<close> adds the \<open>catch\<close>, which only logs.
\<close>

definition saveHeadlines_try ::
  "write_outcome \<Rightarrow> write_outcome \<Rightarrow> jsval list \<Rightarrow> bot \<Rightarrow> (js_error + unit) \<times> bot" where
  "saveHeadlines_try w1 w2 newsItems s =
     (case new_history newsItems s of
        Inl e \<Rightarrow> (Inl e, s)
      | Inr history \<Rightarrow>
          (case w1 of
             WriteFails f \<Rightarrow> (Inl SystemError, s\<lparr>history_file := f\<rparr>)
           | Written \<Rightarrow>
               (let s1 = s\<lparr>history_file := Document (stored_array history)\<rparr> in
                case new_dashboard newsItems s1 of
                  Inl e \<Rightarrow> (Inl e, s1)
                | Inr dashboardHistory \<Rightarrow>
                    (case w2 of
                       WriteFails f \<Rightarrow> (Inl SystemError, s1\<lparr>dashboard_file := f\<rparr>)
                     | Written \<Rightarrow>
                         (Inr (), s1\<lparr>dashboard_file := Document (stored_array dashboardHistory)\<rparr>)))))"

definition saveHeadlines ::
  "write_outcome \<Rightarrow> write_outcome \<Rightarrow> jsval list \<Rightarrow> bot \<Rightarrow> (js_error + unit) \<times> bot" where
  "saveHeadlines w1 w2 newsItems s =
     (case saveHeadlines_try w1 w2 newsItems s of
        (Inl e, s') \<Rightarrow> (Inr (), s')
      | (Inr u, s') \<Rightarrow> (Inr u, s'))"

section \<open>fetchNews (lines 118 to 210)\<close>

text \<open>
  What the generator call gives: no response at all, or the response axios settles
  with, its status and its body as axios hands it over (the parsed JSON, or the text when
  it is not JSON). axios resolves the call when the status is falsy (the number 0) or
  the default \<open>validateStatus\<close> accepts it (200 to 299), and rejects it otherwise.
\<close>

datatype generator_reply = NetworkFailure | Response nat jsval

definition axios_post :: "generator_reply \<Rightarrow> js_error + jsval" where
  "axios_post r =
     (case r of
        NetworkFailure \<Rightarrow> Inl RequestError
      | Response status data \<Rightarrow>
          if status = 0 \<or> (200 \<le> status \<and> status < 300) then Inr data
          else Inl RequestError)"

text \<open>\<open>v.length === 0\<close> and \<open>v[0]\<close>, for a value \<open>v\<close> that is not \<open>undefined\<close>.\<close>

definition length_is_zero :: "jsval \<Rightarrow> bool" where
  "length_is_zero v =
     (case v of
        JArr xs \<Rightarrow> xs = []
      | JStr s \<Rightarrow> s = []
      | JObj kvs \<Rightarrow>
          (case map_of kvs (asc ''length'') of
             Some (JNum n) \<Rightarrow> is_zero n
           | _ \<Rightarrow> False)
      | _ \<Rightarrow> False)"

definition first_item :: "jsval \<Rightarrow> js_error + jsval option" where
  "first_item v =
     (case v of
        JNull \<Rightarrow> Inl TypeError
      | JArr xs \<Rightarrow> Inr (case xs of [] \<Rightarrow> None | x # _ \<Rightarrow> Some x)
      | JStr s \<Rightarrow> Inr (case s of [] \<Rightarrow> None | c # _ \<Rightarrow> Some (JStr [c]))
      | JObj kvs \<Rightarrow> Inr (map_of kvs (asc ''0''))
      | _ \<Rightarrow> Inr None)"

text \<open>Lines 168 to 172: the envelope check and \<open>choices[0].message.content\<close>.\<close>

definition message_content :: "jsval \<Rightarrow> js_error + jsval option" where
  "message_content data =
     (if \<not> truthy data then Inl Error
      else
        and_then (get_field data (asc ''choices'')) (\<lambda>choices.
          case choices of
            None \<Rightarrow> Inl Error
          | Some ch \<Rightarrow>
              if \<not> truthy ch \<or> length_is_zero ch then Inl Error
              else
                and_then (first_item ch) (\<lambda>c0.
                and_then (get_field_opt c0 (asc ''message'')) (\<lambda>m.
                  get_field_opt m (asc ''content'')))))"

definition thinking :: jstring where
  "thinking = asc ''AI is thinking and searching for news... (Streaming disabled for stability)''"

text \<open>
  \<open>fetchNews_try\<close> is the body of the outer \<open>try\<close>; \<open>fullContent.trim()\<close> throws unless
  the content is a string. \<open>fetchNews\<close> adds the outer \<open>catch\<close>, which returns \<open>null\<close>.
\<close>

definition fetchNews_try ::
  "(jstring \<Rightarrow> jstring) \<Rightarrow> jsval \<Rightarrow> generator_reply \<Rightarrow> bot \<Rightarrow> (js_error + jsval list option) \<times> bot" where
  "fetchNews_try num pastHeadlines r s =
     (let s1 = s\<lparr>currentGeneration := Some (JStr thinking)\<rparr> in
      case join_method pastHeadlines (asc '', '') of
        Inl e \<Rightarrow> (Inl e, s1)
      | Inr excludeList \<Rightarrow>
          (case and_then (axios_post r) message_content of
             Inl e \<Rightarrow> (Inl e, s1)
           | Inr fullContent \<Rightarrow>
               (let s2 = s1\<lparr>currentGeneration := fullContent\<rparr> in
                case fullContent of
                  Some (JStr text) \<Rightarrow> (Inr (extract_news num text), s2)
                | _ \<Rightarrow> (Inl TypeError, s2))))"

definition fetchNews ::
  "(jstring \<Rightarrow> jstring) \<Rightarrow> jsval \<Rightarrow> generator_reply \<Rightarrow> bot \<Rightarrow> (js_error + jsval list option) \<times> bot" where
  "fetchNews num pastHeadlines r s =
     (case fetchNews_try num pastHeadlines r s of
        (Inl e, s') \<Rightarrow> (Inr None, s')
      | (Inr news, s') \<Rightarrow> (Inr news, s'))"

section \<open>generateHtml (lines 213 to 270)\<close>

text \<open>
  The fixed text of the two template literals, cut at their \<open>${...}\<close> holes. The source
  file holds the Urdu headings as the code units listed here.
\<close>

definition card_open :: jstring where
  "card_open =
     [0x0A]
     @ asc ''        <div style=\"background: #fff; border-right: 4px solid ''"

definition card_title :: jstring where
  "card_title =
     asc ''; padding: 15px; margin-bottom: 15px; border-radius: 8px; box-shadow: 0 2px 5px rgba(0,0,0,0.05);\">'' @ [0x0A]
     @ asc ''            <h3 style=\"margin: 0 0 8px 0; color: #333; font-size: 18px;\">''"

definition card_summary :: jstring where
  "card_summary =
     asc ''</h3>'' @ [0x0A]
     @ asc ''            <p style=\"margin: 0; color: #666; font-size: 14px; line-height: 1.5;\">''"

definition card_close :: jstring where
  "card_close =
     asc ''</p>'' @ [0x0A]
     @ asc ''        </div>'' @ [0x0A]
     @ asc ''    ''"

definition LOGO_URL :: jstring where
  "LOGO_URL =
     asc ''https://cdn-icons-png.flaticon.com/512/3208/3208726.png''"

definition page_open :: jstring where
  "page_open =
     [0x0A]
     @ asc ''        <!DOCTYPE html>'' @ [0x0A]
     @ asc ''        <html lang=\"ur\" dir=\"rtl\">'' @ [0x0A]
     @ asc ''        <head>'' @ [0x0A]
     @ asc ''            <meta charset=\"UTF-8\">'' @ [0x0A]
     @ asc ''        </head>'' @ [0x0A]
     @ asc ''        <body style=\"font-family: 'Arial', sans-serif; background-color: #f4f4f4; margin: 0; padding: 20px;\">'' @ [0x0A]
     @ asc ''            <div style=\"max-width: 600px; margin: 0 auto; background: #ffffff; padding: 0; border-radius: 12px; box-shadow: 0 4px 15px rgba(0,0,0,0.1); overflow: hidden;\">'' @ [0x0A]
     @ asc ''                '' @ [0x0A]
     @ asc ''                <!-- Header with Logo -->'' @ [0x0A]
     @ asc ''                <div style=\"background: linear-gradient(135deg, #1e3c72 0%, #2a5298 100%); padding: 30px 20px; text-align: center;\">'' @ [0x0A]
     @ asc ''                    <img src=\"''"

definition page_header :: jstring where
  "page_header =
     asc ''\" alt=\"NovaBot Logo\" style=\"width: 64px; height: 64px; margin-bottom: 10px; background: white; padding: 8px; border-radius: 50%;\">'' @ [0x0A]
     @ asc ''                    <h1 style=\"color: #ffffff; margin: 0; font-size: 24px; font-weight: bold;\">NovaBot News</h1>'' @ [0x0A]
     @ asc ''                    <p style=\"color: #aaccff; margin: 5px 0 0 0; font-size: 14px;\">''"

definition page_body :: jstring where
  "page_body =
     asc ''</p>'' @ [0x0A]
     @ asc ''                </div>'' @ [0x0A]
     @ [0x0A]
     @ asc ''                <div style=\"padding: 20px;\">'' @ [0x0A]
     @ asc ''                    <h2 style=\"color: #333; text-align: center; margin-bottom: 25px; font-size: 18px; border-bottom: 1px solid #eee; padding-bottom: 10px;\">'' @ [0x11F, 0x178, 0x201C, 0xB0] @ asc '' '' @ [0xD8, 0xAA, 0xD8, 0xA7, 0xD8, 0xB2, 0xDB] @ asc '' '' @ [0xD8, 0xAA, 0xD8, 0xB1, 0xDB, 0x152, 0xD9, 0x2020] @ asc '' '' @ [0xD8, 0xAE, 0xD8, 0xA8, 0xD8, 0xB1, 0xDB, 0x152, 0xDA, 0xBA] @ asc '' (Latest Updates)</h2>'' @ [0x0A]
     @ [0x0A]
     @ asc ''                    ''"

definition good_heading :: jstring where
  "good_heading =
     [0x0A]
     @ asc ''                        <h3 style=\"color: #27ae60; margin-top: 10px; display: flex; align-items: center; gap: 10px;\">'' @ [0x0A]
     @ asc ''                            <span>'' @ [0x11F, 0x178, 0x2019, 0x161] @ asc ''</span> '' @ [0xD8, 0xAE, 0xD9, 0x2C6, 0xD8, 0xB4, 0xD8, 0xAE, 0xD8, 0xA8, 0xD8, 0xB1, 0xDB, 0x152] @ asc '' (Good News)'' @ [0x0A]
     @ asc ''                        </h3>'' @ [0x0A]
     @ asc ''                        ''"

definition good_close :: jstring where
  "good_close =
     [0x0A]
     @ asc ''                    ''"

definition page_between :: jstring where
  "page_between =
     [0x0A]
     @ [0x0A]
     @ asc ''                    ''"

definition shocking_heading :: jstring where
  "shocking_heading =
     [0x0A]
     @ asc ''                        <h3 style=\"color: #c0392b; margin-top: 30px; display: flex; align-items: center; gap: 10px;\">'' @ [0x0A]
     @ asc ''                            <span>'' @ [0xE2, 0x161, 0xA0, 0xEF, 0xB8] @ asc ''</span> '' @ [0xD9, 0x201E, 0xD8, 0xB1, 0xD8, 0xB2, 0xDB] @ asc '' '' @ [0xD8, 0xAE, 0xDB, 0x152, 0xD8, 0xB2] @ asc '' '' @ [0xD8, 0xAE, 0xD8, 0xA8, 0xD8, 0xB1, 0xDB, 0x152, 0xDA, 0xBA] @ asc '' (Shocking News)'' @ [0x0A]
     @ asc ''                        </h3>'' @ [0x0A]
     @ asc ''                        ''"

definition shocking_close :: jstring where
  "shocking_close =
     [0x0A]
     @ asc ''                    ''"

definition page_close :: jstring where
  "page_close =
     [0x0A]
     @ asc ''                </div>'' @ [0x0A]
     @ [0x0A]
     @ asc ''                <!-- Footer -->'' @ [0x0A]
     @ asc ''                <div style=\"background: #f8f9fa; padding: 20px; text-align: center; border-top: 1px solid #eee; color: #888; font-size: 12px;\">'' @ [0x0A]
     @ asc ''                    <p style=\"margin: 0;\">Automated by <strong>NovaBot</strong></p>'' @ [0x0A]
     @ asc ''                    <p style=\"margin: 5px 0 0 0;\">Powered by OpenRouter & Node.js</p>'' @ [0x0A]
     @ asc ''                </div>'' @ [0x0A]
     @ asc ''            </div>'' @ [0x0A]
     @ asc ''        </body>'' @ [0x0A]
     @ asc ''        </html>'' @ [0x0A]
     @ asc ''    ''"

text \<open>\<open>newsItems.filter(item => item.type === k)\<close>: the first \<open>null\<close> item throws.\<close>

fun filter_type :: "jstring \<Rightarrow> jsval list \<Rightarrow> js_error + jsval list" where
  "filter_type k [] = Inr []"
| "filter_type k (item # items) =
     (case get_field item (asc ''type'') of
        Inl e \<Rightarrow> Inl e
      | Inr t \<Rightarrow>
          (case filter_type k items of
             Inl e \<Rightarrow> Inl e
           | Inr rest \<Rightarrow> Inr (if t = Some (JStr k) then item # rest else rest)))"

definition createCard :: "jsval \<Rightarrow> jstring \<Rightarrow> js_error + jstring" where
  "createCard item color =
     and_then (get_field item (asc ''title'')) (\<lambda>title.
     and_then (ToString_opt title) (\<lambda>title_text.
     and_then (get_field item (asc ''summary'')) (\<lambda>summary.
     and_then (ToString_opt summary) (\<lambda>summary_text.
       Inr (card_open @ color @ card_title @ title_text @ card_summary @ summary_text
            @ card_close)))))"

text \<open>\<open>items.map(item => createCard(item, color))\<close>, and the same joined with \<open>join('')\<close>.\<close>

fun card_list :: "jstring \<Rightarrow> jsval list \<Rightarrow> js_error + jstring list" where
  "card_list color [] = Inr []"
| "card_list color (item # items) =
     (case createCard item color of
        Inl e \<Rightarrow> Inl e
      | Inr c \<Rightarrow>
          (case card_list color items of
             Inl e \<Rightarrow> Inl e
           | Inr cs \<Rightarrow> Inr (c # cs)))"

definition cards :: "jstring \<Rightarrow> jsval list \<Rightarrow> js_error + jstring" where
  "cards color items = and_then (card_list color items) (\<lambda>cs. Inr (concat cs))"

definition good_section :: "jsval list \<Rightarrow> js_error + jstring" where
  "good_section goodNews =
     (if length goodNews > 0
      then and_then (cards (asc ''#27ae60'') goodNews) (\<lambda>cs. Inr (good_heading @ cs @ good_close))
      else Inr [])"

definition shocking_section :: "jsval list \<Rightarrow> js_error + jstring" where
  "shocking_section shockingNews =
     (if length shockingNews > 0
      then and_then (cards (asc ''#c0392b'') shockingNews)
             (\<lambda>cs. Inr (shocking_heading @ cs @ shocking_close))
      else Inr [])"

text \<open>\<open>stamp\<close> is the text \<open>new Date().toLocaleString()\<close> gives when the page is built.\<close>

definition generateHtml :: "jstring \<Rightarrow> jsval list \<Rightarrow> js_error + jstring" where
  "generateHtml stamp newsItems =
     and_then (filter_type (asc ''good'') newsItems) (\<lambda>goodNews.
     and_then (filter_type (asc ''shocking'') newsItems) (\<lambda>shockingNews.
     and_then (good_section goodNews) (\<lambda>good.
     and_then (shocking_section shockingNews) (\<lambda>shocking.
       Inr (page_open @ LOGO_URL @ page_header @ stamp @ page_body @ good @ page_between
            @ shocking @ page_close)))))"

section \<open>sendEmail (lines 273 to 290)\<close>

datatype mail_outcome = Sent | SendFails

text \<open>A rejected \<open>sendMail\<close> is caught and logged; nothing leaves the function.\<close>

definition sendEmail :: "mail_outcome \<Rightarrow> jstring \<Rightarrow> bot \<Rightarrow> (js_error + unit) \<times> bot" where
  "sendEmail m htmlContent s =
     (if htmlContent = [] then (Inr (), s)
      else
        (case m of
           Sent \<Rightarrow> (Inr (), s\<lparr>outbox := outbox s @ [htmlContent]\<rparr>)
         | SendFails \<Rightarrow> (Inr (), s)))"

section \<open>runBot (lines 293 to 313)\<close>

text \<open>
  What one cycle meets outside the process: the generator's reply, the clock (as the
  text of the page header and as the milliseconds read at line 310), the mail
  transport and the disk.
\<close>

record cycle =
  reply :: generator_reply
  stamp :: jstring
  mail :: mail_outcome
  write_history :: write_outcome
  write_dashboard :: write_outcome
  now :: int

definition schedule_next :: "int \<Rightarrow> bot \<Rightarrow> bot" where
  "schedule_next t s = s\<lparr>nextRunTime := Some (new_Date (t + 10 * 60000))\<rparr>"

text \<open>
  An exception that leaves \<open>runBot\<close> (its promise is rejected) is the result \<open>Inl\<close>; the
  lines after the throw are not run.
\<close>

definition runBot :: "(jstring \<Rightarrow> jstring) \<Rightarrow> cycle \<Rightarrow> bot \<Rightarrow> (js_error + unit) \<times> bot" where
  "runBot num env s =
     (let pastHeadlines = getPastHeadlines s in
      case fetchNews num pastHeadlines (reply env) s of
        (Inl e, s1) \<Rightarrow> (Inl e, s1)
      | (Inr newsItems, s1) \<Rightarrow>
          (case newsItems of
             None \<Rightarrow> (Inr (), schedule_next (now env) s1)
           | Some items \<Rightarrow>
               if length items > 0 then
                 (case generateHtml (stamp env) items of
                    Inl e \<Rightarrow> (Inl e, s1)
                  | Inr html \<Rightarrow>
                      (case sendEmail (mail env) html s1 of
                         (Inl e, s2) \<Rightarrow> (Inl e, s2)
                       | (Inr u, s2) \<Rightarrow>
                           (case saveHeadlines (write_history env) (write_dashboard env) items s2 of
                              (Inl e, s3) \<Rightarrow> (Inl e, s3)
                            | (Inr u', s3) \<Rightarrow> (Inr (), schedule_next (now env) s3))))
               else (Inr (), schedule_next (now env) s1)))"

section \<open>Notions the claims use\<close>

text \<open>
  The title of an item as \<open>n.title\<close> reads it (\<open>None\<close> is \<open>undefined\<close>), and as the headline
  file holds it afterwards.
\<close>

definition title_of :: "jsval \<Rightarrow> jsval option" where
  "title_of n = (case get_field n (asc ''title'') of Inl e \<Rightarrow> None | Inr t \<Rightarrow> t)"

definition stored_title :: "jsval \<Rightarrow> jsval" where
  "stored_title n = stored_elem (title_of n)"

text \<open>The sequences the two files hold; a file that is absent or unreadable holds none.\<close>

definition headlines :: "bot \<Rightarrow> jsval list" where
  "headlines s = (case history_file s of Document (JArr h) \<Rightarrow> h | _ \<Rightarrow> [])"

definition digest :: "bot \<Rightarrow> jsval list" where
  "digest s = (case dashboard_file s of Document (JArr d) \<Rightarrow> d | _ \<Rightarrow> [])"

text \<open>\<open>last_n n xs\<close> is the suffix of \<open>xs\<close> with its last \<open>n\<close> elements (all of \<open>xs\<close> if it is shorter).\<close>

definition last_n :: "nat \<Rightarrow> 'a list \<Rightarrow> 'a list" where
  "last_n n xs = drop (length xs - n) xs"

text \<open>
  A store is readable when the headline file is absent, unreadable or holds an array and
  the dashboard file is absent or holds an array.
\<close>

definition readable_store :: "bot \<Rightarrow> bool" where
  "readable_store s =
     ((case history_file s of Document v \<Rightarrow> isArray (Some v) | _ \<Rightarrow> True)
      \<and> (case dashboard_file s of
             Absent \<Rightarrow> True
           | Corrupt \<Rightarrow> False
           | Document v \<Rightarrow> isArray (Some v)))"

text \<open>\<open>occurs p s\<close>: the pattern \<open>p\<close> stands somewhere in \<open>s\<close>.\<close>

fun occurs :: "jstring \<Rightarrow> jstring \<Rightarrow> bool" where
  "occurs p [] = (p = [])"
| "occurs p (c # cs) = (starts_with p (c # cs) \<or> occurs p cs)"

text \<open>A sequence of \<open>saveHeadlines\<close> calls, one per batch, on a disk that takes every write.\<close>

fun save_all :: "jsval list list \<Rightarrow> bot \<Rightarrow> bot" where
  "save_all [] s = s"
| "save_all (newsItems # batches) s =
     save_all batches (snd (saveHeadlines Written Written newsItems s))"

section \<open>Inputs named by the claims\<close>

text \<open>
  The reply of the fourth testable property: a JSON object in a \<open>json\<close> code fence, with
  prose before and after it.
\<close>

definition fenced_reply :: jstring where
  "fenced_reply =
     asc ''Sure! ```json'' @ [0x0A]
     @ asc ''{\"news\":[{\"title\":\"A\",\"summary\":\"B\",\"category\":\"good\"}]}'' @ [0x0A]
     @ asc ''```'' @ [0x0A]
     @ asc ''Hope that helps!''"

text \<open>
  A reply that is nothing but the JSON object, and one whose second record has no
  \<open>type\<close>.
\<close>

definition clean_reply :: jstring where
  "clean_reply = asc ''{\"news\":[{\"title\":\"A\",\"summary\":\"B\",\"type\":\"good\"}]}''"

text \<open>
  A reply whose only item is \<open>null\<close>, and one that is nothing but a JSON object and has
  three backticks inside a title.
\<close>

definition null_reply :: jstring where
  "null_reply = asc ''{\"news\":[null]}''"

definition backtick_reply :: jstring where
  "backtick_reply =
     asc ''{\"news\":[{\"title\":\"a'' @ [0x60, 0x60, 0x60]
     @ asc ''b\",\"summary\":\"B\",\"type\":\"good\"}]}''"

definition mixed_reply :: jstring where
  "mixed_reply =
     asc ''{\"news\":[{\"title\":\"A\",\"summary\":\"B\",\"type\":\"good\"},{\"title\":\"C\",\"summary\":\"D\"}]}''"

definition untyped_item :: jsval where
  "untyped_item = JObj [(asc ''title'', JStr (asc ''C'')), (asc ''summary'', JStr (asc ''D''))]"

text \<open>A news record, a chat-completion envelope around a reply, and what a cycle meets.\<close>

definition news_item :: "string \<Rightarrow> string \<Rightarrow> string \<Rightarrow> jsval" where
  "news_item title summary category =
     JObj [(asc ''title'', JStr (asc title)), (asc ''summary'', JStr (asc summary)),
           (asc ''type'', JStr (asc category))]"

definition story :: "string \<Rightarrow> jsval" where
  "story t = news_item t ''summary'' ''good''"

definition chat_completion :: "jstring \<Rightarrow> jsval" where
  "chat_completion content =
     JObj [(asc ''choices'',
            JArr [JObj [(asc ''message'', JObj [(asc ''content'', JStr content)])]])]"

definition sample_cycle :: "generator_reply \<Rightarrow> mail_outcome \<Rightarrow> cycle" where
  "sample_cycle r m =
     \<lparr>reply = r, stamp = asc ''1/1/2026, 10:00:00 AM'', mail = m, write_history = Written,
      write_dashboard = Written, now = 1767261600000\<rparr>"

section \<open>Evaluation rules\<close>

lemmas text_eval = asc_def trim_def js_space_def fence_def fence_json_def starts_with_def
  indexOf_def lastIndexOf_def substring_def json_slice_def Let_def

lemmas parse_eval = JSON_parse_def skip_ws_def json_ws_def cons_chars_def json_number_def
  unsigned_number_def int_part_def frac_part_def exp_part_def digits1_def is_digit_def
  unescape_def hex4_def hex_digit_def parse_value.simps parse_elems.simps
  parse_members.simps

lemmas news_eval = extract_news_def parse_news_def truthy_opt_def isArray_def array_items_def

section \<open>The parser consumes its input and never runs out of budget\<close>

declare parse_elems.simps [simp del] parse_members.simps [simp del]

lemma length_skip_ws: "length (skip_ws s) \<le> length s"
  by (simp add: skip_ws_def length_dropWhile_le)

lemma skip_ws_Cons: "skip_ws s = c # cs \<Longrightarrow> length cs < length s"
  using length_skip_ws [of s] by simp

lemma cons_chars_Some:
  "cons_chars c r = Some (str, rest) \<Longrightarrow> \<exists>str'. r = Some (str', rest)"
  by (auto simp: cons_chars_def split: option.splits)

lemma string_chars_shorter: "string_chars s = Some (str, r) \<Longrightarrow> length r < length s"
proof (induction s arbitrary: str r rule: string_chars.induct)
  case 1
  then show ?case by simp
next
  case (2 c cs)
  consider (quote) "c = 0x22" | (esc) "c \<noteq> 0x22" "c = 0x5C" | (plain) "c \<noteq> 0x22" "c \<noteq> 0x5C"
    by blast
  then show ?case
  proof cases
    case quote
    with "2.prems" show ?thesis by simp
  next
    case plain
    with "2.prems" have "\<not> c < 0x20" and "cons_chars c (string_chars cs) = Some (str, r)"
      by (simp_all split: if_splits)
    then obtain str' where "string_chars cs = Some (str', r)"
      by (auto dest: cons_chars_Some)
    with "2.IH"(3) plain \<open>\<not> c < 0x20\<close> have "length r < length cs" by blast
    then show ?thesis by simp
  next
    case esc
    with "2.prems" obtain e es where cs: "cs = e # es"
      by (cases cs) simp_all
    show ?thesis
    proof (cases "e = 0x75")
      case True
      with "2.prems" esc cs obtain h3 h2 h1 h0 rest u
        where es: "es = h3 # h2 # h1 # h0 # rest" and u: "hex4 h3 h2 h1 h0 = Some u"
          and rec: "cons_chars u (string_chars rest) = Some (str, r)"
        by (simp split: list.splits option.splits)
      from rec obtain str' where "string_chars rest = Some (str', r)"
        by (auto dest: cons_chars_Some)
      with "2.IH"(1) esc cs True es u have "length r < length rest" by blast
      with cs es show ?thesis by simp
    next
      case False
      with "2.prems" esc cs obtain u where u: "unescape e = Some u"
        and rec: "cons_chars u (string_chars es) = Some (str, r)"
        by (simp split: option.splits)
      from rec obtain str' where "string_chars es = Some (str', r)"
        by (auto dest: cons_chars_Some)
      with "2.IH"(2) esc cs False u have "length r < length es" by blast
      with cs show ?thesis by simp
    qed
  qed
qed


lemma digits1_shorter: "digits1 s = Some (d, r) \<Longrightarrow> length r \<le> length s"
  by (auto simp: digits1_def length_dropWhile_le split: if_splits)

lemma int_part_shorter: "int_part s = Some (i, r) \<Longrightarrow> length r < length s"
  by (auto simp: int_part_def le_imp_less_Suc length_dropWhile_le split: list.splits if_splits)

lemma frac_part_shorter: "frac_part s = Some (f, r) \<Longrightarrow> length r \<le> length s"
  by (auto simp: frac_part_def split: list.splits if_splits option.splits
      dest!: digits1_shorter)

lemma exp_part_shorter: "exp_part s = Some (e, r) \<Longrightarrow> length r \<le> length s"
  by (auto simp: exp_part_def split: list.splits if_splits option.splits
      dest!: digits1_shorter)

lemma unsigned_number_shorter: "unsigned_number s = Some (l, r) \<Longrightarrow> length r < length s"
  by (auto simp: unsigned_number_def split: option.splits
      dest!: int_part_shorter frac_part_shorter exp_part_shorter)

lemma json_number_shorter: "json_number s = Some (l, r) \<Longrightarrow> length r < length s"
  by (auto simp: json_number_def split: list.splits if_splits option.splits
      dest!: unsigned_number_shorter)

declare parse_value.simps [simp del]

lemma skip_ws_le: "skip_ws s = c # cs \<Longrightarrow> Suc (length cs) \<le> length s"
  using length_skip_ws [of s] by simp

lemma parse_consumes:
  "(\<forall>s v r. parse_value num f s = Ok v r \<longrightarrow> length r < length s)
   \<and> (\<forall>s vs r. parse_elems num f s = Ok vs r \<longrightarrow> length r < length s)
   \<and> (\<forall>acc s kvs r. parse_members num f acc s = Ok kvs r \<longrightarrow> length r < length s)"
proof (induction f)
  case Nil
  show ?case
    by (auto simp: parse_elems.simps [of num "[]"] parse_members.simps [of num "[]"]
        parse_value.simps split: list.splits if_splits option.splits)
next
  case (Cons x fuel)
  then have elems: "\<And>s vs r. parse_elems num fuel s = Ok vs r \<Longrightarrow> length r < length s"
    and members: "\<And>acc s kvs r. parse_members num fuel acc s = Ok kvs r \<Longrightarrow> length r < length s"
    by blast+
  have val: "length r < length s" if ok: "parse_value num (x # fuel) s = Ok v r" for s v r
  proof -
    note parse_value.simps [simp]
    from ok obtain c cs where s: "skip_ws s = c # cs"
      by (cases "skip_ws s") simp_all
    note le = skip_ws_le [OF s]
    consider (arr) "c = 0x5B" | (obj) "c \<noteq> 0x5B" "c = 0x7B" | (str) "c \<noteq> 0x5B" "c \<noteq> 0x7B" "c = 0x22"
      | (other) "c \<noteq> 0x5B" "c \<noteq> 0x7B" "c \<noteq> 0x22"
      by blast
    then show ?thesis
    proof cases
      case arr
      with ok s obtain d ds where cs: "skip_ws cs = d # ds"
        by (cases "skip_ws cs") simp_all
      note le2 = skip_ws_le [OF cs]
      show ?thesis
      proof (cases "d = 0x5D")
        case True
        with ok s arr cs le le2 show ?thesis by simp
      next
        case False
        with ok s arr cs obtain vs where "parse_elems num fuel (d # ds) = Ok vs r"
          by (simp split: presult.splits)
        from elems [OF this] le le2 show ?thesis by simp
      qed
    next
      case obj
      with ok s obtain d ds where cs: "skip_ws cs = d # ds"
        by (cases "skip_ws cs") simp_all
      note le2 = skip_ws_le [OF cs]
      show ?thesis
      proof (cases "d = 0x7D")
        case True
        with ok s obj cs le le2 show ?thesis by simp
      next
        case False
        with ok s obj cs obtain kvs where "parse_members num fuel [] (d # ds) = Ok kvs r"
          by (simp split: presult.splits)
        from members [OF this] le le2 show ?thesis by simp
      qed
    next
      case str
      with ok s obtain t where "string_chars cs = Some (t, r)"
        by (auto split: option.splits)
      from string_chars_shorter [OF this] le show ?thesis by simp
    next
      case other
      with ok s have "r = drop 4 (c # cs) \<or> r = drop 5 (c # cs)
          \<or> (\<exists>lit. json_number (c # cs) = Some (lit, r))"
        by (auto split: if_splits option.splits)
      then show ?thesis
        using le by (auto dest!: json_number_shorter)
    qed
  qed
  have el: "length r < length s" if ok: "parse_elems num (x # fuel) s = Ok vs r" for s vs r
  proof -
    from ok obtain v r1 where v: "parse_value num (x # fuel) s = Ok v r1"
      by (subst (asm) parse_elems.simps) (simp split: presult.splits)
    from val [OF v] have l1: "length r1 < length s" .
    from ok v obtain c cs where r1: "skip_ws r1 = c # cs"
      by (subst (asm) parse_elems.simps) (cases "skip_ws r1"; simp)
    note le = skip_ws_le [OF r1]
    from ok v r1 have "r = cs \<or> (\<exists>ws. parse_elems num fuel cs = Ok ws r)"
      by (subst (asm) parse_elems.simps) (auto split: if_splits presult.splits)
    then show ?thesis
      using l1 le by (auto dest!: elems)
  qed
  have mem: "length r < length s" if ok: "parse_members num (x # fuel) acc s = Ok kvs r"
    for acc s kvs r
  proof -
    from ok obtain c cs where s: "skip_ws s = c # cs"
      by (subst (asm) parse_members.simps) (cases "skip_ws s"; simp)
    from ok s have "string_chars cs \<noteq> None"
      by (subst (asm) parse_members.simps) (cases "string_chars cs"; simp split: if_splits)
    then obtain k r1 where k: "string_chars cs = Some (k, r1)"
      by (cases "string_chars cs") auto
    from ok s k obtain c2 r2 where r1: "skip_ws r1 = c2 # r2"
      by (subst (asm) parse_members.simps) (cases "skip_ws r1"; simp split: if_splits)
    from ok s k r1 obtain v r3 where v: "parse_value num (x # fuel) r2 = Ok v r3"
      by (subst (asm) parse_members.simps) (simp split: if_splits presult.splits)
    from ok s k r1 v obtain c3 r4 where r3: "skip_ws r3 = c3 # r4"
      by (subst (asm) parse_members.simps) (cases "skip_ws r3"; simp split: if_splits)
    from ok s k r1 v r3 have "r = r4 \<or> (\<exists>acc'. parse_members num fuel acc' r4 = Ok kvs r)"
      by (subst (asm) parse_members.simps) (auto split: if_splits)
    then show ?thesis
      using skip_ws_le [OF s] string_chars_shorter [OF k] skip_ws_le [OF r1] val [OF v]
        skip_ws_le [OF r3]
      by (auto dest!: members)
  qed
  from val el mem show ?case by blast
qed

lemma parse_budget:
  "(\<forall>s. length s < length f \<longrightarrow> parse_value num f s \<noteq> Starved)
   \<and> (\<forall>s. length s < length f \<longrightarrow> parse_elems num f s \<noteq> Starved)
   \<and> (\<forall>acc s. length s < length f \<longrightarrow> parse_members num f acc s \<noteq> Starved)"
proof (induction f)
  case Nil
  show ?case by simp
next
  case (Cons x fuel)
  then have elems: "\<And>s. length s < length fuel \<Longrightarrow> parse_elems num fuel s \<noteq> Starved"
    and members: "\<And>acc s. length s < length fuel \<Longrightarrow> parse_members num fuel acc s \<noteq> Starved"
    by blast+
  note consumes = parse_consumes [of num "x # fuel"]
  have val: "parse_value num (x # fuel) s \<noteq> Starved" if len: "length s < length (x # fuel)" for s
  proof (cases "skip_ws s")
    case Nil
    then show ?thesis by (simp add: parse_value.simps)
  next
    case s: (Cons c cs)
    note le = skip_ws_le [OF s]
    consider (nested) "c = 0x5B \<or> c = 0x7B" | (leaf) "c \<noteq> 0x5B" "c \<noteq> 0x7B"
      by blast
    then show ?thesis
    proof cases
      case leaf
      with s show ?thesis
        by (simp add: parse_value.simps split: option.splits)
    next
      case nested
      show ?thesis
      proof (cases "skip_ws cs")
        case Nil
        with s nested show ?thesis
          by (auto simp: parse_value.simps)
      next
        case cs: (Cons d ds)
        note le2 = skip_ws_le [OF cs]
        from len le le2 have "length (d # ds) < length fuel" by simp
        from elems [OF this] members [OF this, of "[]"] s cs nested show ?thesis
          by (auto simp: parse_value.simps split: presult.splits)
      qed
    qed
  qed
  have el: "parse_elems num (x # fuel) s \<noteq> Starved" if len: "length s < length (x # fuel)" for s
  proof (cases "parse_value num (x # fuel) s")
    case (Ok v r)
    with consumes have l1: "length r < length s" by blast
    show ?thesis
    proof (cases "skip_ws r")
      case Nil
      with Ok show ?thesis by (subst parse_elems.simps) simp
    next
      case r: (Cons c cs)
      from skip_ws_le [OF r] l1 len have "length cs < length fuel" by simp
      from elems [OF this] Ok r show ?thesis
        by (subst parse_elems.simps) (simp split: presult.splits)
    qed
  next
    case Bad
    then show ?thesis by (subst parse_elems.simps) simp
  next
    case Starved
    with val [OF len] show ?thesis by simp
  qed
  have mem: "parse_members num (x # fuel) acc s \<noteq> Starved"
    if len: "length s < length (x # fuel)" for acc s
  proof (cases "skip_ws s")
    case Nil
    then show ?thesis by (subst parse_members.simps) simp
  next
    case s: (Cons c cs)
    show ?thesis
    proof (cases "string_chars cs")
      case None
      with s show ?thesis by (subst parse_members.simps) simp
    next
      case (Some p)
      then obtain k r1 where k: "string_chars cs = Some (k, r1)" by (cases p) simp
      show ?thesis
      proof (cases "skip_ws r1")
        case Nil
        with s k show ?thesis by (subst parse_members.simps) simp
      next
        case r1: (Cons c2 r2)
        from skip_ws_le [OF s] string_chars_shorter [OF k] skip_ws_le [OF r1] len
        have l2: "length r2 < length (x # fuel)" by simp
        show ?thesis
        proof (cases "parse_value num (x # fuel) r2")
          case (Ok v r3)
          with consumes have l3: "length r3 < length r2" by blast
          show ?thesis
          proof (cases "skip_ws r3")
            case Nil
            with s k r1 Ok show ?thesis by (subst parse_members.simps) simp
          next
            case r3: (Cons c3 r4)
            from skip_ws_le [OF r3] l3 l2 have "length r4 < length fuel" by simp
            from members [OF this] s k r1 Ok r3 show ?thesis
              by (subst parse_members.simps) simp
          qed
        next
          case Bad
          with s k r1 show ?thesis by (subst parse_members.simps) simp
        next
          case Starved
          with val [OF l2] show ?thesis by simp
        qed
      qed
    qed
  qed
  from val el mem show ?case by blast
qed

lemma JSON_parse_never_starved: "parse_value num (0 # s) s \<noteq> Starved"
  using parse_budget [of "0 # s" num] by simp

section \<open>The extractor\<close>

lemma get_field_Some:
  "(get_field v k = Inr (Some w)) = (\<exists>kvs. v = JObj kvs \<and> map_of kvs k = Some w)"
  by (cases v) auto

lemma extract_news_Some:
  "(extract_news num s = Some xs) =
     (\<exists>kvs. JSON_parse num (json_slice s) = Some (JObj kvs)
        \<and> map_of kvs (asc ''news'') = Some (JArr xs))"
  by (auto simp: extract_news_def parse_news_def isArray_def truthy_opt_def array_items_def
      get_field_Some split: option.splits jsval.splits sum.splits)

lemma fetchNews_returns: "\<exists>res s'. fetchNews num past r s = (Inr res, s')"
  by (cases "fetchNews_try num past r s") (auto simp: fetchNews_def split: sum.splits)

text \<open>
  Claim C4. For the reply \<open>Sure!\<close>, a \<open>json\<close> fence around
  \<open>{"news":[{"title":"A","summary":"B","category":"good"}]}\<close>, and \<open>Hope that helps!\<close>
  after it, extraction succeeds and returns one record, whose title is \<open>A\<close>.
\<close>

theorem extract_fenced_reply:
  "extract_news num fenced_reply =
     Some [JObj [(asc ''title'', JStr (asc ''A'')), (asc ''summary'', JStr (asc ''B'')),
                 (asc ''category'', JStr (asc ''good''))]]"
  by (simp add: fenced_reply_def text_eval parse_eval news_eval)

text \<open>
  Claim C5. Extraction returns the failure sentinel \<open>null\<close> exactly when the text cut
  from the reply does not parse to an object whose \<open>news\<close> property is an array; it does
  so for \<open>no json here\<close> and for \<open>{"foo": 1}\<close>; and no exception leaves \<open>fetchNews\<close>,
  whatever the stored headlines, the generator's reply and the state are.
\<close>

theorem extract_news_sentinel:
  "(extract_news num s = None) =
     (\<not> (\<exists>kvs xs. JSON_parse num (json_slice s) = Some (JObj kvs)
            \<and> map_of kvs (asc ''news'') = Some (JArr xs)))
   \<and> extract_news num (asc ''no json here'') = None
   \<and> extract_news num (asc ''{\"foo\": 1}'') = None
   \<and> (\<exists>res st'. fetchNews num past r st = (Inr res, st'))"
proof -
  have general: "(extract_news num s = None) =
     (\<not> (\<exists>kvs xs. JSON_parse num (json_slice s) = Some (JObj kvs)
            \<and> map_of kvs (asc ''news'') = Some (JArr xs)))"
  proof -
    have "(extract_news num s = None) = (\<forall>xs. extract_news num s \<noteq> Some xs)"
      by (cases "extract_news num s") auto
    then show ?thesis
      by (simp only: extract_news_Some) blast
  qed
  have prose: "extract_news num (asc ''no json here'') = None"
    by (simp add: text_eval parse_eval news_eval)
  have no_news: "extract_news num (asc ''{\"foo\": 1}'') = None"
    by (simp add: text_eval parse_eval news_eval)
  from general prose no_news fetchNews_returns [of num past r st] show ?thesis
    by blast
qed

lemma extract_clean_reply:
  "extract_news num clean_reply = Some [news_item ''A'' ''B'' ''good'']"
  by (simp add: clean_reply_def news_item_def text_eval parse_eval news_eval)

lemma remove_all_absent: "\<not> occurs p s \<Longrightarrow> remove_all p s = s"
  by (induction p s rule: remove_all.induct) auto

lemma starts_with_append: "starts_with (p @ q) s \<Longrightarrow> starts_with p s"
proof -
  assume "starts_with (p @ q) s"
  then have "take (length p) (take (length p + length q) s) = take (length p) (p @ q)"
    by (simp add: starts_with_def)
  then show ?thesis by (simp add: starts_with_def min_def)
qed

lemma fence_json_fence: "fence_json = fence @ asc ''json''"
  by (simp add: fence_json_def fence_def asc_def)

lemma starts_with_fence: "starts_with fence_json s \<Longrightarrow> starts_with fence s"
  unfolding fence_json_fence by (rule starts_with_append)

lemma occurs_fence_json: "occurs fence_json s \<Longrightarrow> occurs fence s"
  by (induction s) (auto simp: starts_with_fence fence_json_def asc_def)

lemma trim_clean:
  assumes "s \<noteq> []" "\<not> js_space (hd s)" "\<not> js_space (last s)"
  shows "trim s = s"
proof -
  from assms obtain c cs where s: "s = c # cs" by (cases s) auto
  with assms have "dropWhile js_space s = s" by simp
  moreover have "dropWhile js_space (rev s) = rev s"
  proof -
    from assms(1) have "s = butlast s @ [last s]" by simp
    then have "rev s = last s # rev (butlast s)" by (metis rev.simps(2) rev_rev_ident rev_swap)
    then show ?thesis using assms(3) by (metis dropWhile.simps(2))
  qed
  ultimately show ?thesis by (simp add: trim_def)
qed

lemma last_index_from_snoc: "last_index_from i best c (xs @ [c]) = int (i + length xs)"
  by (induction xs arbitrary: i best) auto

lemma json_slice_clean:
  assumes "s \<noteq> []" "hd s = 0x7B" "last s = 0x7D" "\<not> occurs fence s"
  shows "json_slice s = s"
proof -
  have t: "trim s = s"
    using assms by (intro trim_clean) (simp_all add: js_space_def)
  have "\<not> occurs fence_json s"
    using assms(4) occurs_fence_json [of s] by blast
  with assms(4) have r: "remove_all fence (remove_all fence_json s) = s"
    by (simp add: remove_all_absent)
  have first: "indexOf 0x7B s = 0"
    using assms(1,2) by (cases s) (simp_all add: indexOf_def)
  obtain ys where ys: "s = ys @ [0x7D]"
    using assms(1,3) by (metis append_butlast_last_id)
  have lastc: "lastIndexOf 0x7D s = int (length s) - 1"
    by (simp add: lastIndexOf_def ys last_index_from_snoc)
  show ?thesis
    using assms(1) by (simp add: json_slice_def t r first lastc substring_def Let_def)
qed

text \<open>
  Counterexample to C8 as it is stated. \<open>backtick_reply\<close> is exactly a JSON object with a
  \<open>news\<close> array and nothing around it; its title holds three backticks. Line 180 removes
  every run of three backticks, also inside a string, so the record that extraction
  returns is titled \<open>ab\<close>: the array is not returned unchanged.
\<close>

theorem backticks_in_title_removed:
  "hd backtick_reply = 0x7B \<and> last backtick_reply = 0x7D
   \<and> JSON_parse id backtick_reply =
         Some (JObj [(asc ''news'',
                      JArr [JObj [(asc ''title'', JStr (asc ''a'' @ [0x60, 0x60, 0x60] @ asc ''b'')),
                                  (asc ''summary'', JStr (asc ''B'')),
                                  (asc ''type'', JStr (asc ''good''))]])])
   \<and> extract_news id backtick_reply = Some [news_item ''ab'' ''B'' ''good'']
   \<and> extract_news id backtick_reply \<noteq>
         Some [JObj [(asc ''title'', JStr (asc ''a'' @ [0x60, 0x60, 0x60] @ asc ''b'')),
                     (asc ''summary'', JStr (asc ''B'')),
                     (asc ''type'', JStr (asc ''good''))]]"
proof -
  have got: "extract_news id backtick_reply = Some [news_item ''ab'' ''B'' ''good'']"
    by (simp add: backtick_reply_def news_item_def text_eval parse_eval news_eval)
  have parsed: "JSON_parse id backtick_reply =
         Some (JObj [(asc ''news'',
                      JArr [JObj [(asc ''title'', JStr (asc ''a'' @ [0x60, 0x60, 0x60] @ asc ''b'')),
                                  (asc ''summary'', JStr (asc ''B'')),
                                  (asc ''type'', JStr (asc ''good''))]])])"
    by (simp add: backtick_reply_def parse_eval asc_def starts_with_def)
  have ends: "hd backtick_reply = 0x7B" "last backtick_reply = 0x7D"
    by (simp_all add: backtick_reply_def asc_def)
  from got have "extract_news id backtick_reply \<noteq>
         Some [JObj [(asc ''title'', JStr (asc ''a'' @ [0x60, 0x60, 0x60] @ asc ''b'')),
                     (asc ''summary'', JStr (asc ''B'')),
                     (asc ''type'', JStr (asc ''good''))]]"
    by (simp add: news_item_def asc_def)
  with got parsed ends show ?thesis by simp
qed

text \<open>
  Claim C8, amended. If the reply is exactly a JSON object (it starts with \<open>{\<close> and ends
  with \<open>}\<close>) that parses to an object whose \<open>news\<close> is an array, and three backticks in a
  row stand nowhere in it, not inside its strings either, extraction returns that array
  unchanged.
\<close>

theorem extract_clean_json:
  assumes "JSON_parse num s = Some (JObj kvs)" and "map_of kvs (asc ''news'') = Some (JArr xs)"
    and "hd s = 0x7B" and "last s = 0x7D" and "\<not> occurs fence s"
  shows "extract_news num s = Some xs"
proof -
  have "JSON_parse num [] = None"
    by (simp add: JSON_parse_def skip_ws_def parse_value.simps)
  with assms(1) have "s \<noteq> []" by auto
  then have "json_slice s = s" using assms(3-5) by (rule json_slice_clean)
  with assms(1,2) show ?thesis by (simp add: extract_news_Some)
qed

lemma parse_clean_reply:
  "JSON_parse num clean_reply = Some (JObj [(asc ''news'', JArr [news_item ''A'' ''B'' ''good''])])"
  by (simp add: clean_reply_def news_item_def parse_eval asc_def starts_with_def)

theorem extract_clean_json_witness:
  "extract_news (\<lambda>l. l) clean_reply = Some [news_item ''A'' ''B'' ''good'']"
proof -
  have "hd clean_reply = 0x7B" "last clean_reply = 0x7D" "\<not> occurs fence clean_reply"
    by (simp_all add: clean_reply_def asc_def fence_def starts_with_def)
  moreover have "map_of [(asc ''news'', JArr [news_item ''A'' ''B'' ''good''])] (asc ''news'')
      = Some (JArr [news_item ''A'' ''B'' ''good''])"
    by simp
  ultimately show ?thesis
    using extract_clean_json [OF parse_clean_reply] by blast
qed

section \<open>The history files\<close>

lemma titles_of_ok: "\<forall>n\<in>set items. n \<noteq> JNull \<Longrightarrow> titles_of items = Inr (map title_of items)"
proof (induction items)
  case Nil
  then show ?case by simp
next
  case (Cons n ns)
  then have "n \<noteq> JNull" by simp
  then obtain t where t: "get_field n (asc ''title'') = Inr t"
    by (cases n) auto
  with Cons show ?case by (simp add: title_of_def)
qed

lemma titles_of_null: "JNull \<in> set items \<Longrightarrow> titles_of items = Inl TypeError"
proof (induction items)
  case Nil
  then show ?case by simp
next
  case (Cons n ns)
  show ?case
  proof (cases "n = JNull")
    case True
    then show ?thesis by simp
  next
    case False
    then obtain t where t: "get_field n (asc ''title'') = Inr t"
      by (cases n) auto
    from False Cons have "titles_of ns = Inl TypeError" by simp
    with t show ?thesis by simp
  qed
qed

lemma json_stored_idem: "json_stored (json_stored v) = json_stored v"
proof (induction v)
  case (JObj kvs)
  have member: "snd kv \<in> Basic_BNFs.snds kv" for kv :: "jstring \<times> jsval"
    by (cases kv) auto
  have "json_stored (json_stored (snd kv)) = json_stored (snd kv)" if "kv \<in> set kvs" for kv
    using that member JObj.IH [of kv "snd kv"] by blast
  then show ?case by (simp add: o_def)
qed auto

lemma stored_elem_idem: "stored_elem (Some (stored_elem v)) = stored_elem v"
  by (simp add: stored_elem_def json_stored_idem split: option.splits)

lemma keep_last_eq: "keep_last n xs = last_n n xs"
  by (simp add: keep_last_def last_n_def)

lemma length_last_n: "length (last_n n xs) \<le> n"
  by (simp add: last_n_def)

lemma last_n_map: "last_n n (map f xs) = map f (last_n n xs)"
  by (simp add: last_n_def drop_map)

lemma last_n_append: "last_n n (last_n n xs @ ys) = last_n n (xs @ ys)"
proof (cases "length xs \<le> n")
  case True
  then show ?thesis by (simp add: last_n_def)
next
  case False
  then have "length xs + length ys - (length xs - n + n) + (length xs - n) = length xs + length ys - n"
    by arith
  with False show ?thesis by (simp add: last_n_def)
qed

lemma getPastHeadlines_headlines:
  "(case history_file s of Document v \<Rightarrow> isArray (Some v) | _ \<Rightarrow> True) \<Longrightarrow>
     getPastHeadlines s = JArr (headlines s)"
  by (auto simp: getPastHeadlines_def headlines_def read_json_def isArray_def
      split: json_file.splits jsval.splits)

lemma new_history_ok:
  assumes "\<forall>n\<in>set items. n \<noteq> JNull"
    and "case history_file s of Document v \<Rightarrow> isArray (Some v) | _ \<Rightarrow> True"
  shows "new_history items s = Inr (keep_last 50 (map Some (headlines s) @ map title_of items))"
  using assms
  by (simp add: new_history_def and_then_def titles_of_ok getPastHeadlines_headlines spread_def)

lemma new_dashboard_ok:
  assumes "case dashboard_file s of Absent \<Rightarrow> True | Corrupt \<Rightarrow> False | Document v \<Rightarrow> isArray (Some v)"
  shows "new_dashboard items s = Inr (keep_last 20 (map Some (digest s @ items)))"
  using assms
  by (auto simp: new_dashboard_def and_then_def digest_def read_json_def spread_def isArray_def
      split: json_file.splits jsval.splits)

lemma saveHeadlines_ok:
  assumes "\<forall>n\<in>set items. n \<noteq> JNull" and "readable_store s"
  shows "saveHeadlines Written Written items s =
           (Inr (),
            s\<lparr>history_file :=
                 Document (stored_array (keep_last 50 (map Some (headlines s) @ map title_of items))),
              dashboard_file :=
                 Document (stored_array (keep_last 20 (map Some (digest s @ items))))\<rparr>)"
proof -
  from assms(2) have h: "case history_file s of Document v \<Rightarrow> isArray (Some v) | _ \<Rightarrow> True"
    and d: "case dashboard_file s of Absent \<Rightarrow> True | Corrupt \<Rightarrow> False | Document v \<Rightarrow> isArray (Some v)"
    by (simp_all add: readable_store_def)
  let ?s1 = "s\<lparr>history_file := Document (stored_array (keep_last 50 (map Some (headlines s) @ map title_of items)))\<rparr>"
  have d1: "case dashboard_file ?s1 of Absent \<Rightarrow> True | Corrupt \<Rightarrow> False | Document v \<Rightarrow> isArray (Some v)"
    using d by simp
  have dig: "digest ?s1 = digest s" by (simp add: digest_def)
  show ?thesis
    using new_history_ok [OF assms(1) h] new_dashboard_ok [OF d1, of items]
    by (simp add: saveHeadlines_def saveHeadlines_try_def dig)
qed

lemma stored_array_keep_last:
  "stored_array (keep_last n xs) = JArr (last_n n (map stored_elem xs))"
  by (simp add: stored_array_def keep_last_eq last_n_map)

lemma stored_elem_Some: "stored_elem \<circ> Some = json_stored"
  by (simp add: fun_eq_iff stored_elem_def)

lemma stored_elem_title: "stored_elem \<circ> title_of = stored_title"
  by (simp add: fun_eq_iff stored_title_def)

lemmas stored_simps = stored_array_keep_last stored_elem_Some stored_elem_title

lemma json_stored_title: "json_stored (stored_title n) = stored_title n"
  by (simp add: stored_title_def stored_elem_def json_stored_idem split: option.splits)

lemma save_all_files:
  assumes "\<forall>b\<in>set (b0 # batches). \<forall>n\<in>set b. n \<noteq> JNull" and "readable_store s"
  shows "history_file (save_all (b0 # batches) s) =
           Document (JArr (last_n 50 (map json_stored (headlines s)
                                        @ map stored_title (concat (b0 # batches)))))
       \<and> dashboard_file (save_all (b0 # batches) s) =
           Document (JArr (last_n 20 (map json_stored (digest s @ concat (b0 # batches)))))"
  using assms
proof (induction batches arbitrary: b0 s)
  case Nil
  then show ?case
    by (simp add: saveHeadlines_ok stored_simps)
next
  case (Cons b1 batches)
  let ?s1 = "snd (saveHeadlines Written Written b0 s)"
  from Cons.prems have b0: "\<forall>n\<in>set b0. n \<noteq> JNull" by simp
  have h1: "history_file ?s1 =
      Document (JArr (last_n 50 (map json_stored (headlines s) @ map stored_title b0)))"
    and d1: "dashboard_file ?s1 = Document (JArr (last_n 20 (map json_stored (digest s @ b0))))"
    using b0 Cons.prems(2)
    by (simp_all add: saveHeadlines_ok stored_simps)
  then have r1: "readable_store ?s1"
    by (simp add: readable_store_def isArray_def)
  have hl: "headlines ?s1 = last_n 50 (map json_stored (headlines s) @ map stored_title b0)"
    and dg: "digest ?s1 = last_n 20 (map json_stored (digest s @ b0))"
    using h1 d1 by (simp_all add: headlines_def digest_def)
  have rest: "\<forall>b\<in>set (b1 # batches). \<forall>n\<in>set b. n \<noteq> JNull"
    using Cons.prems(1) by simp
  have hh: "map json_stored (headlines ?s1) @ map stored_title (concat (b1 # batches)) =
      last_n 50 (map json_stored (headlines s) @ map stored_title b0)
        @ map stored_title (concat (b1 # batches))"
    by (simp add: hl last_n_map [symmetric] o_def json_stored_idem json_stored_title)
  have dd: "map json_stored (digest ?s1 @ concat (b1 # batches)) =
      last_n 20 (map json_stored (digest s @ b0)) @ map json_stored (concat (b1 # batches))"
    by (simp add: dg last_n_map [symmetric] o_def json_stored_idem)
  from Cons.IH [OF rest r1] show ?case
    unfolding hh dd by (simp add: last_n_append)
qed


text \<open>
  Claim C1. Take any sequence of \<open>saveHeadlines\<close> calls, at least one, whose items are
  records (none is \<open>null\<close>), on a store that is readable and a disk that takes every
  write. After the last call (so after each call) the headline file holds the last 50
  entries of the full history (what the file held before, then the titles of all
  appended items in the order of the calls), at most 50 of them, and the dashboard file
  holds the last 20 entries of the old digest followed by all appended records, at most
  20 of them. Titles and records are as JSON stores them (\<open>stored_title\<close>,
  \<open>json_stored\<close>).
\<close>

theorem history_fifo:
  assumes "batches \<noteq> []" and "\<forall>b\<in>set batches. \<forall>n\<in>set b. n \<noteq> JNull"
    and "readable_store s"
  shows "history_file (save_all batches s) =
           Document (JArr (last_n 50 (map json_stored (headlines s)
                                        @ map stored_title (concat batches))))
       \<and> length (headlines (save_all batches s)) \<le> 50
       \<and> dashboard_file (save_all batches s) =
           Document (JArr (last_n 20 (map json_stored (digest s @ concat batches))))
       \<and> length (digest (save_all batches s)) \<le> 20"
proof -
  from assms(1) obtain b0 bs where "batches = b0 # bs" by (cases batches) auto
  with save_all_files [of b0 bs s] assms(2,3) show ?thesis
    by (simp add: headlines_def digest_def length_last_n)
qed

theorem history_fifo_witness:
  "history_file (save_all
      [map story [''a'', ''b'', ''c'', ''d'', ''e'', ''f'', ''g'', ''h'', ''i'', ''j'', ''k'', ''l'',
                  ''m'', ''n'', ''o''],
       map story [''p'', ''q'', ''r'', ''s'', ''t'', ''u'']] initial_bot)
     = Document (JArr (map (\<lambda>t. JStr (asc t))
         [''a'', ''b'', ''c'', ''d'', ''e'', ''f'', ''g'', ''h'', ''i'', ''j'', ''k'', ''l'', ''m'',
          ''n'', ''o'', ''p'', ''q'', ''r'', ''s'', ''t'', ''u'']))
   \<and> dashboard_file (save_all
      [map story [''a'', ''b'', ''c'', ''d'', ''e'', ''f'', ''g'', ''h'', ''i'', ''j'', ''k'', ''l'',
                  ''m'', ''n'', ''o''],
       map story [''p'', ''q'', ''r'', ''s'', ''t'', ''u'']] initial_bot)
     = Document (JArr (map story
         [''b'', ''c'', ''d'', ''e'', ''f'', ''g'', ''h'', ''i'', ''j'', ''k'', ''l'', ''m'',
          ''n'', ''o'', ''p'', ''q'', ''r'', ''s'', ''t'', ''u'']))"
proof -
  have t: "stored_title (story t) = JStr (asc t)" and r: "json_stored (story t) = story t" for t
    by (simp_all add: story_def news_item_def stored_title_def stored_elem_def title_of_def
        asc_def)
  have nonnull: "story t \<noteq> JNull" for t
    by (simp add: story_def news_item_def)
  have ok: "readable_store initial_bot"
    by (simp add: readable_store_def initial_bot_def)
  have files: "headlines initial_bot = []" "digest initial_bot = []"
    by (simp_all add: headlines_def digest_def initial_bot_def)
  from history_fifo [of "[map story [''a'', ''b'', ''c'', ''d'', ''e'', ''f'', ''g'', ''h'', ''i'',
                  ''j'', ''k'', ''l'', ''m'', ''n'', ''o''],
       map story [''p'', ''q'', ''r'', ''s'', ''t'', ''u'']]" initial_bot] ok
  show ?thesis
    by (simp add: files t r nonnull last_n_def)
qed

text \<open>
  Two of the three reads of a history file treat a missing or unparsable file as empty:
  \<open>getPastHeadlines\<close> and the dashboard route. The read of the dashboard file inside
  \<open>saveHeadlines\<close> treats only a missing file so: an unparsable one stays unparsable
  through every call.
\<close>

lemma getPastHeadlines_recovers:
  "history_file s = Absent \<or> history_file s = Corrupt \<Longrightarrow> getPastHeadlines s = JArr []"
  by (auto simp: getPastHeadlines_def read_json_def)

lemma api_data_history_recovers:
  "dashboard_file s = Absent \<or> dashboard_file s = Corrupt \<Longrightarrow> api_data_history s = JArr []"
  by (auto simp: api_data_history_def read_json_def)

lemma corrupt_dashboard_stays:
  "dashboard_file s = Corrupt \<Longrightarrow> dashboard_file (snd (saveHeadlines w1 w2 items s)) = Corrupt"
  by (auto simp: saveHeadlines_def saveHeadlines_try_def new_dashboard_def read_json_def
      and_then_def Let_def split: sum.splits write_outcome.splits)

text \<open>
  Claim C3 fails on the code. With an unparsable \<open>dashboard_history.json\<close>, line 106
  throws inside the \<open>try\<close> of \<open>saveHeadlines\<close>: the headline file has been written by
  then, the dashboard file is left as it was, and the new record is not appended to it.
\<close>

theorem corrupt_dashboard_blocks_digest:
  "saveHeadlines Written Written [news_item ''A'' ''B'' ''good'']
     (initial_bot\<lparr>dashboard_file := Corrupt\<rparr>)
   = (Inr (), initial_bot\<lparr>history_file := Document (JArr [JStr (asc ''A'')]),
                          dashboard_file := Corrupt\<rparr>)"
  by (simp add: saveHeadlines_def saveHeadlines_try_def new_history_def new_dashboard_def
      and_then_def getPastHeadlines_def initial_bot_def spread_def keep_last_def
      stored_array_def stored_elem_def read_json_def news_item_def asc_def)

section \<open>The renderer\<close>

lemma filter_type_all:
  "\<forall>item\<in>set items. get_field item (asc ''type'') = Inr (Some (JStr k)) \<Longrightarrow>
     filter_type k items = Inr items"
  by (induction items) auto

lemma filter_type_none:
  "\<forall>item\<in>set items. get_field item (asc ''type'') = Inr (Some (JStr k')) \<Longrightarrow> k \<noteq> k' \<Longrightarrow>
     filter_type k items = Inr []"
  by (induction items) auto

lemma card_list_all2:
  "(card_list color items = Inr cs) = list_all2 (\<lambda>item c. createCard item color = Inr c) items cs"
proof (induction items arbitrary: cs)
  case Nil
  then show ?case by auto
next
  case (Cons item items)
  show ?case
  proof (cases "createCard item color")
    case (Inl e)
    then show ?thesis by (auto simp: list_all2_Cons1)
  next
    case (Inr c)
    then show ?thesis
      using Cons.IH by (cases "card_list color items") (auto simp: list_all2_Cons1)
  qed
qed

lemma good_not_shocking: "asc ''good'' \<noteq> asc ''shocking''"
  by (simp add: asc_def)


text \<open>
  Claim C7. Take a non-empty list whose items all have the category \<open>shocking\<close> (the
  property \<open>type\<close> that line 215 reads). Rendering it succeeds exactly when each item's
  card can be built, and the page is then the header, no good section at all (the text
  between the two sections follows the header directly), the shocking heading, one card
  per item in the order of the list, and the footer.
\<close>

theorem only_shocking_rendered:
  assumes "\<forall>item\<in>set items. get_field item (asc ''type'') = Inr (Some (JStr (asc ''shocking'')))"
    and "items \<noteq> []"
  shows "(generateHtml ts items = Inr html) =
           (\<exists>cs. list_all2 (\<lambda>item c. createCard item (asc ''#c0392b'') = Inr c) items cs
              \<and> html = page_open @ LOGO_URL @ page_header @ ts @ page_body @ page_between
                   @ shocking_heading @ concat cs @ shocking_close @ page_close)"
proof -
  have good: "filter_type (asc ''good'') items = Inr []"
    using assms(1) good_not_shocking by (rule filter_type_none)
  have shocking: "filter_type (asc ''shocking'') items = Inr items"
    using assms(1) by (rule filter_type_all)
  show ?thesis
    using assms(2)
    by (cases "card_list (asc ''#c0392b'') items")
       (auto simp: generateHtml_def good shocking and_then_def good_section_def
          shocking_section_def cards_def card_list_all2 [symmetric])
qed


theorem only_shocking_rendered_witness:
  "generateHtml (asc ''noon'') [news_item ''X'' ''Y'' ''shocking'', news_item ''Z'' ''W'' ''shocking'']
     = Inr (page_open @ LOGO_URL @ page_header @ asc ''noon'' @ page_body @ page_between
            @ shocking_heading
            @ concat [card_open @ asc ''#c0392b'' @ card_title @ asc ''X'' @ card_summary
                        @ asc ''Y'' @ card_close,
                      card_open @ asc ''#c0392b'' @ card_title @ asc ''Z'' @ card_summary
                        @ asc ''W'' @ card_close]
            @ shocking_close @ page_close)"
  using only_shocking_rendered
    [of "[news_item ''X'' ''Y'' ''shocking'', news_item ''Z'' ''W'' ''shocking'']" "asc ''noon''"
        "page_open @ LOGO_URL @ page_header @ asc ''noon'' @ page_body @ page_between
            @ shocking_heading
            @ concat [card_open @ asc ''#c0392b'' @ card_title @ asc ''X'' @ card_summary
                        @ asc ''Y'' @ card_close,
                      card_open @ asc ''#c0392b'' @ card_title @ asc ''Z'' @ card_summary
                        @ asc ''W'' @ card_close]
            @ shocking_close @ page_close"]
  by (simp add: news_item_def createCard_def and_then_def ToString_opt_def list_all2_Cons1
      asc_def)

section \<open>The run cycle\<close>

lemma fetchNews_try_frame:
  "fetchNews_try num past r s = (res, s1) \<Longrightarrow>
     history_file s1 = history_file s \<and> dashboard_file s1 = dashboard_file s
     \<and> nextRunTime s1 = nextRunTime s \<and> outbox s1 = outbox s"
  by (auto simp: fetchNews_try_def Let_def split: sum.splits option.splits jsval.splits)

lemma fetchNews_frame:
  "fetchNews num past r s = (res, s1) \<Longrightarrow>
     history_file s1 = history_file s \<and> dashboard_file s1 = dashboard_file s
     \<and> nextRunTime s1 = nextRunTime s \<and> outbox s1 = outbox s"
  by (cases "fetchNews_try num past r s")
     (auto simp: fetchNews_def split: sum.splits dest: fetchNews_try_frame)

lemma fetchNews_request_fails:
  "axios_post r = Inl e \<Longrightarrow> fst (fetchNews num past r s) = Inr None"
  by (auto simp: fetchNews_def fetchNews_try_def and_then_def Let_def split: sum.splits)

text \<open>A response with status 0 is not a failed call: its body goes on to the envelope check.\<close>

lemma axios_post_status_zero: "axios_post (Response 0 data) = Inr data"
  by (simp add: axios_post_def)

lemma fetchNews_envelope_fails:
  "r = Response status data \<Longrightarrow> message_content data = Inl e \<Longrightarrow>
     fst (fetchNews num past r s) = Inr None"
  by (auto simp: fetchNews_def fetchNews_try_def and_then_def Let_def axios_post_def
      split: sum.splits)

lemma runBot_no_news:
  assumes "fetchNews num (getPastHeadlines s) (reply env) s = (Inr news, s1)"
    and "news = None \<or> news = Some []"
  shows "runBot num env s = (Inr (), schedule_next (now env) s1)"
  using assms by (auto simp: runBot_def Let_def)

lemma filter_type_nonnull: "filter_type k items = Inr l \<Longrightarrow> \<forall>n\<in>set items. n \<noteq> JNull"
proof (induction items arbitrary: l)
  case Nil
  then show ?case by simp
next
  case (Cons n ns)
  then show ?case by (auto split: sum.splits)
qed

lemma generateHtml_nonnull: "generateHtml ts items = Inr html \<Longrightarrow> \<forall>n\<in>set items. n \<noteq> JNull"
  by (auto simp: generateHtml_def and_then_def split: sum.splits dest: filter_type_nonnull)

text \<open>
  A \<open>null\<close> among the items makes \<open>item.type\<close> throw inside \<open>generateHtml\<close>, which
  \<open>runBot\<close> does not catch: the cycle ends there, before the mail, the files and the
  schedule.
\<close>

lemma get_field_error: "get_field v k = Inl e \<Longrightarrow> v = JNull \<and> e = TypeError"
  by (cases v) auto

lemma filter_type_null: "JNull \<in> set items \<Longrightarrow> filter_type k items = Inl TypeError"
proof (induction items)
  case Nil
  then show ?case by simp
next
  case (Cons n ns)
  show ?case
  proof (cases "n = JNull")
    case True
    then show ?thesis by simp
  next
    case False
    with Cons have "filter_type k ns = Inl TypeError" by simp
    then show ?thesis by (cases "get_field n (asc ''type'')") (auto dest: get_field_error)
  qed
qed

lemma runBot_rejects_null:
  assumes "fetchNews num (getPastHeadlines s) (reply env) s = (Inr (Some items), s1)"
    and "JNull \<in> set items"
  shows "runBot num env s = (Inl TypeError, s1)"
proof -
  from assms(2) have "items \<noteq> []" by auto
  moreover from assms(2) have "generateHtml (stamp env) items = Inl TypeError"
    by (simp add: generateHtml_def and_then_def filter_type_null)
  ultimately show ?thesis
    using assms(1) by (simp add: runBot_def Let_def)
qed

lemma runBot_news:
  assumes fetch: "fetchNews num (getPastHeadlines s) (reply env) s = (Inr (Some items), s1)"
    and items: "items \<noteq> []"
    and render: "generateHtml (stamp env) items = Inr html"
    and disk: "write_history env = Written" "write_dashboard env = Written"
    and store: "readable_store s"
  shows "runBot num env s =
           (Inr (),
            s1\<lparr>history_file :=
                  Document (JArr (last_n 50 (map json_stored (headlines s) @ map stored_title items))),
               dashboard_file :=
                  Document (JArr (last_n 20 (map json_stored (digest s @ items)))),
               nextRunTime := Some (new_Date (now env + 10 * 60000)),
               outbox := (if mail env = Sent \<and> html \<noteq> [] then outbox s @ [html] else outbox s)\<rparr>)"
proof -
  from fetchNews_frame [OF fetch]
  have frame: "history_file s1 = history_file s" "dashboard_file s1 = dashboard_file s"
    "outbox s1 = outbox s"
    by simp_all
  obtain s2 where mailed: "sendEmail (mail env) html s1 = (Inr (), s2)"
    and s2: "s2 = s1\<lparr>outbox := (if mail env = Sent \<and> html \<noteq> [] then outbox s @ [html] else outbox s)\<rparr>"
    using frame by (cases "mail env") (auto simp: sendEmail_def)
  have r2: "readable_store s2" and h2: "headlines s2 = headlines s" and d2: "digest s2 = digest s"
    using store frame s2 by (simp_all add: readable_store_def headlines_def digest_def)
  from generateHtml_nonnull [OF render] have nn: "\<forall>n\<in>set items. n \<noteq> JNull" .
  have "runBot num env s =
      (Inr (),
       schedule_next (now env)
         (s2\<lparr>history_file :=
               Document (JArr (last_n 50 (map json_stored (headlines s) @ map stored_title items))),
             dashboard_file :=
               Document (JArr (last_n 20 (map json_stored (digest s @ items))))\<rparr>))"
    using fetch items render disk mailed saveHeadlines_ok [OF nn r2]
    by (simp add: runBot_def Let_def h2 d2 stored_simps)
  then show ?thesis
    by (simp add: s2 schedule_next_def)
qed

lemma new_history_files:
  "history_file s = history_file s' \<Longrightarrow> new_history items s = new_history items s'"
  by (simp add: new_history_def getPastHeadlines_def)

lemma new_dashboard_files:
  "dashboard_file s = dashboard_file s' \<Longrightarrow> new_dashboard items s = new_dashboard items s'"
  by (simp add: new_dashboard_def)

lemma saveHeadlines_files:
  assumes "history_file s = history_file s'" and "dashboard_file s = dashboard_file s'"
  shows "history_file (snd (saveHeadlines w1 w2 items s))
           = history_file (snd (saveHeadlines w1 w2 items s'))
       \<and> dashboard_file (snd (saveHeadlines w1 w2 items s))
           = dashboard_file (snd (saveHeadlines w1 w2 items s'))"
proof -
  have h: "new_history items s = new_history items s'"
    using assms(1) by (rule new_history_files)
  have d: "new_dashboard items (s\<lparr>history_file := f\<rparr>) = new_dashboard items (s'\<lparr>history_file := f\<rparr>)" for f
    using assms(2) by (intro new_dashboard_files) simp
  show ?thesis
    using assms
    by (auto simp: saveHeadlines_def saveHeadlines_try_def h d Let_def
        split: sum.splits write_outcome.splits)
qed

lemma saveHeadlines_returns: "fst (saveHeadlines w1 w2 items s) = Inr ()"
  by (cases "saveHeadlines_try w1 w2 items s") (auto simp: saveHeadlines_def split: sum.splits)

lemma sendEmail_frame:
  "fst (sendEmail m html s) = Inr ()
   \<and> history_file (snd (sendEmail m html s)) = history_file s
   \<and> dashboard_file (snd (sendEmail m html s)) = dashboard_file s"
  by (cases m) (simp_all add: sendEmail_def)

lemma runBot_saves:
  assumes fetch: "fetchNews num (getPastHeadlines s) (reply env) s = (Inr (Some items), s1)"
    and items: "items \<noteq> []"
    and render: "generateHtml (stamp env) items = Inr html"
  shows "\<exists>s'. runBot num env s = (Inr (), s')
     \<and> history_file s' =
         history_file (snd (saveHeadlines (write_history env) (write_dashboard env) items s))
     \<and> dashboard_file s' =
         dashboard_file (snd (saveHeadlines (write_history env) (write_dashboard env) items s))
     \<and> nextRunTime s' = Some (new_Date (now env + 10 * 60000))"
proof -
  obtain s2 where mailed: "sendEmail (mail env) html s1 = (Inr (), s2)"
    using sendEmail_frame [of "mail env" html s1] by (cases "sendEmail (mail env) html s1") auto
  with sendEmail_frame [of "mail env" html s1] fetchNews_frame [OF fetch]
  have same: "history_file s = history_file s2" "dashboard_file s = dashboard_file s2"
    by simp_all
  obtain s3 where saved: "saveHeadlines (write_history env) (write_dashboard env) items s2 = (Inr (), s3)"
    using saveHeadlines_returns [of "write_history env" "write_dashboard env" items s2]
    by (cases "saveHeadlines (write_history env) (write_dashboard env) items s2") auto
  have "runBot num env s = (Inr (), schedule_next (now env) s3)"
    using fetch items render mailed saved by (simp add: runBot_def Let_def)
  moreover from saveHeadlines_files [OF same, of "write_history env" "write_dashboard env" items] saved
  have "history_file s3 =
         history_file (snd (saveHeadlines (write_history env) (write_dashboard env) items s))"
    "dashboard_file s3 =
         dashboard_file (snd (saveHeadlines (write_history env) (write_dashboard env) items s))"
    by simp_all
  ultimately show ?thesis by (simp add: schedule_next_def)
qed

lemma fetchNews_content_not_text:
  assumes "r = Response status data" and "message_content data = Inr c"
    and "\<forall>text. c \<noteq> Some (JStr text)"
  shows "fst (fetchNews num past r s) = Inr None"
  using assms
  by (auto simp: fetchNews_def fetchNews_try_def and_then_def Let_def axios_post_def
      split: sum.splits option.splits jsval.splits)

text \<open>
  Claim C2. In a cycle whose generator call fails (no response, a status that axios
  rejects: outside 200 to 299 and not 0, an envelope that the check of line 168 or the
  reads of line 172 reject, a content that is not a string) or whose extraction gives
  \<open>null\<close> or an empty list, \<open>runBot\<close> completes, both history files are what they were,
  and \<open>nextRunTime\<close> is the date 10 minutes after the clock read at line 310.
\<close>

theorem failed_cycle_frame:
  assumes "reply env = NetworkFailure
         \<or> (\<exists>status data. reply env = Response status data
              \<and> 0 < status \<and> (status < 200 \<or> 300 \<le> status))
         \<or> (\<exists>status data e. reply env = Response status data \<and> message_content data = Inl e)
         \<or> (\<exists>status data c. reply env = Response status data \<and> message_content data = Inr c
              \<and> (\<forall>text. c \<noteq> Some (JStr text)))
         \<or> fst (fetchNews num (getPastHeadlines s) (reply env) s) = Inr None
         \<or> fst (fetchNews num (getPastHeadlines s) (reply env) s) = Inr (Some [])"
  shows "\<exists>s'. runBot num env s = (Inr (), s')
           \<and> history_file s' = history_file s \<and> dashboard_file s' = dashboard_file s
           \<and> nextRunTime s' = Some (new_Date (now env + 10 * 60000))"
proof -
  obtain res s1 where fetch: "fetchNews num (getPastHeadlines s) (reply env) s = (res, s1)"
    by (cases "fetchNews num (getPastHeadlines s) (reply env) s") auto
  have "fst (fetchNews num (getPastHeadlines s) (reply env) s) = Inr None
      \<or> fst (fetchNews num (getPastHeadlines s) (reply env) s) = Inr (Some [])"
    using assms
    by (auto simp: axios_post_def
        intro: fetchNews_request_fails fetchNews_envelope_fails fetchNews_content_not_text)
  with fetch obtain news where res: "res = Inr news" and news: "news = None \<or> news = Some []"
    by auto
  from fetchNews_frame [OF fetch] runBot_no_news [OF fetch [unfolded res] news]
  show ?thesis by (simp add: schedule_next_def)
qed

theorem failed_cycle_frame_witness:
  "\<exists>s'. runBot (\<lambda>l. l) (sample_cycle (Response 503 (JStr (asc ''Service Unavailable''))) Sent)
            (initial_bot\<lparr>history_file := Document (JArr [JStr (asc ''old'')])\<rparr>) = (Inr (), s')
        \<and> history_file s' = Document (JArr [JStr (asc ''old'')])
        \<and> dashboard_file s' = Absent
        \<and> nextRunTime s' = Some (Date 1767262200000)"
  using failed_cycle_frame [of "sample_cycle (Response 503 (JStr (asc ''Service Unavailable''))) Sent"
      "\<lambda>l. l" "initial_bot\<lparr>history_file := Document (JArr [JStr (asc ''old'')])\<rparr>"]
  by (simp add: sample_cycle_def initial_bot_def new_Date_def)

lemma fetch_clean_reply:
  "fetchNews (\<lambda>l. l) (JArr []) (Response 200 (chat_completion clean_reply)) s =
     (Inr (Some [news_item ''A'' ''B'' ''good'']), s\<lparr>currentGeneration := Some (JStr clean_reply)\<rparr>)"
proof -
  have content: "message_content (chat_completion clean_reply) = Inr (Some (JStr clean_reply))"
    by (simp add: message_content_def chat_completion_def and_then_def length_is_zero_def
        first_item_def get_field_opt_def asc_def)
  show ?thesis
    by (simp add: fetchNews_def fetchNews_try_def join_method_def axios_post_def and_then_def
        content extract_clean_reply)
qed

lemma render_one_good:
  "generateHtml ts [news_item ''A'' ''B'' ''good''] =
     Inr (page_open @ LOGO_URL @ page_header @ ts @ page_body
          @ good_heading
          @ card_open @ asc ''#27ae60'' @ card_title @ asc ''A'' @ card_summary @ asc ''B''
          @ card_close @ good_close @ page_between @ page_close)"
  by (simp add: generateHtml_def good_section_def shocking_section_def cards_def createCard_def
      and_then_def ToString_opt_def news_item_def asc_def)

text \<open>
  Counterexample to C6 as it is stated. From the reply \<open>{"news":[null]}\<close> extraction
  gives one item. \<open>null.type\<close> throws at line 214, the TypeError leaves \<open>runBot\<close> at line
  301, and lines 302 to 311 are not run: whether the mail transport would have worked or
  not, nothing is appended to either file.
\<close>

theorem null_item_not_persisted:
  "extract_news id null_reply = Some [JNull]
   \<and> runBot id (sample_cycle (Response 200 (chat_completion null_reply)) Sent) initial_bot =
       (Inl TypeError, initial_bot\<lparr>currentGeneration := Some (JStr null_reply)\<rparr>)
   \<and> runBot id (sample_cycle (Response 200 (chat_completion null_reply)) SendFails) initial_bot =
       (Inl TypeError, initial_bot\<lparr>currentGeneration := Some (JStr null_reply)\<rparr>)
   \<and> history_file (initial_bot\<lparr>currentGeneration := Some (JStr null_reply)\<rparr>) = Absent
   \<and> dashboard_file (initial_bot\<lparr>currentGeneration := Some (JStr null_reply)\<rparr>) = Absent"
proof -
  have got: "extract_news id null_reply = Some [JNull]"
    by (simp add: null_reply_def text_eval parse_eval news_eval)
  have content: "message_content (chat_completion null_reply) = Inr (Some (JStr null_reply))"
    by (simp add: message_content_def chat_completion_def and_then_def length_is_zero_def
        first_item_def get_field_opt_def asc_def)
  have fetch: "fetchNews id (getPastHeadlines initial_bot)
      (reply (sample_cycle (Response 200 (chat_completion null_reply)) m)) initial_bot =
      (Inr (Some [JNull]), initial_bot\<lparr>currentGeneration := Some (JStr null_reply)\<rparr>)" for m
    by (simp add: fetchNews_def fetchNews_try_def join_method_def axios_post_def and_then_def
        content got getPastHeadlines_def initial_bot_def sample_cycle_def)
  have run: "runBot id (sample_cycle (Response 200 (chat_completion null_reply)) m) initial_bot =
       (Inl TypeError, initial_bot\<lparr>currentGeneration := Some (JStr null_reply)\<rparr>)" for m
    by (rule runBot_rejects_null [OF fetch]) simp
  have "history_file (initial_bot\<lparr>currentGeneration := Some (JStr null_reply)\<rparr>) = Absent"
    "dashboard_file (initial_bot\<lparr>currentGeneration := Some (JStr null_reply)\<rparr>) = Absent"
    by (simp_all add: initial_bot_def)
  with got run show ?thesis by simp
qed

text \<open>
  Claim C6, amended. When extraction gives at least one item and the page can be rendered, the
  cycle completes and leaves both files as \<open>saveHeadlines\<close> leaves them for these items,
  whatever the mail transport does; on a readable store and a disk that takes both
  writes, both files then hold the old entries followed by the new items (cut to the
  last 50 and 20). When extraction gives \<open>null\<close> or no item, both files are what they were,
  again whatever the mail transport does.
\<close>

theorem persistence_regardless_of_mail:
  "(fetchNews num (getPastHeadlines s) (reply env) s = (Inr (Some items), s1) \<and> items \<noteq> []
      \<and> generateHtml (stamp env) items = Inr html
    \<longrightarrow> (\<forall>m. \<exists>s'. runBot num (env\<lparr>mail := m\<rparr>) s = (Inr (), s')
           \<and> history_file s' =
               history_file (snd (saveHeadlines (write_history env) (write_dashboard env) items s))
           \<and> dashboard_file s' =
               dashboard_file (snd (saveHeadlines (write_history env) (write_dashboard env) items s))
           \<and> (write_history env = Written \<and> write_dashboard env = Written \<and> readable_store s
                \<longrightarrow> history_file s' =
                      Document (JArr (last_n 50 (map json_stored (headlines s)
                                                   @ map stored_title items)))
                  \<and> dashboard_file s' =
                      Document (JArr (last_n 20 (map json_stored (digest s @ items)))))))
   \<and> (fst (fetchNews num (getPastHeadlines s) (reply env) s) = Inr None
        \<or> fst (fetchNews num (getPastHeadlines s) (reply env) s) = Inr (Some [])
    \<longrightarrow> (\<forall>m. history_file (snd (runBot num (env\<lparr>mail := m\<rparr>) s)) = history_file s
           \<and> dashboard_file (snd (runBot num (env\<lparr>mail := m\<rparr>) s)) = dashboard_file s))"
proof -
  have news: "\<exists>s'. runBot num (env\<lparr>mail := m\<rparr>) s = (Inr (), s')
           \<and> history_file s' =
               history_file (snd (saveHeadlines (write_history env) (write_dashboard env) items s))
           \<and> dashboard_file s' =
               dashboard_file (snd (saveHeadlines (write_history env) (write_dashboard env) items s))
           \<and> (write_history env = Written \<and> write_dashboard env = Written \<and> readable_store s
                \<longrightarrow> history_file s' =
                      Document (JArr (last_n 50 (map json_stored (headlines s)
                                                   @ map stored_title items)))
                  \<and> dashboard_file s' =
                      Document (JArr (last_n 20 (map json_stored (digest s @ items)))))"
    if fetch: "fetchNews num (getPastHeadlines s) (reply env) s = (Inr (Some items), s1)"
      and items: "items \<noteq> []" and render: "generateHtml (stamp env) items = Inr html" for m
  proof -
    have fetch': "fetchNews num (getPastHeadlines s) (reply (env\<lparr>mail := m\<rparr>)) s
        = (Inr (Some items), s1)"
      and render': "generateHtml (stamp (env\<lparr>mail := m\<rparr>)) items = Inr html"
      using fetch render by simp_all
    from runBot_saves [OF fetch' items render']
    obtain s' where run: "runBot num (env\<lparr>mail := m\<rparr>) s = (Inr (), s')"
      and h: "history_file s' =
          history_file (snd (saveHeadlines (write_history env) (write_dashboard env) items s))"
      and d: "dashboard_file s' =
          dashboard_file (snd (saveHeadlines (write_history env) (write_dashboard env) items s))"
      by auto
    from generateHtml_nonnull [OF render] have nn: "\<forall>n\<in>set items. n \<noteq> JNull" .
    have "history_file s' =
            Document (JArr (last_n 50 (map json_stored (headlines s) @ map stored_title items)))
        \<and> dashboard_file s' =
            Document (JArr (last_n 20 (map json_stored (digest s @ items))))"
      if "write_history env = Written" "write_dashboard env = Written" "readable_store s"
      using that h d saveHeadlines_ok [OF nn that(3)] by (simp add: stored_simps)
    with run h d show ?thesis by blast
  qed
  have none: "history_file (snd (runBot num (env\<lparr>mail := m\<rparr>) s)) = history_file s
           \<and> dashboard_file (snd (runBot num (env\<lparr>mail := m\<rparr>) s)) = dashboard_file s"
    if a: "fst (fetchNews num (getPastHeadlines s) (reply env) s) = Inr None
        \<or> fst (fetchNews num (getPastHeadlines s) (reply env) s) = Inr (Some [])" for m
  proof -
    obtain res s1 where fetch: "fetchNews num (getPastHeadlines s) (reply env) s = (res, s1)"
      by (cases "fetchNews num (getPastHeadlines s) (reply env) s") auto
    with a obtain news where res: "res = Inr news" and news: "news = None \<or> news = Some []"
      by auto
    have fetch': "fetchNews num (getPastHeadlines s) (reply (env\<lparr>mail := m\<rparr>)) s = (Inr news, s1)"
      using fetch res by simp
    from fetchNews_frame [OF fetch] runBot_no_news [OF fetch' news]
    show ?thesis by (simp add: schedule_next_def)
  qed
  from news none show ?thesis by blast
qed

theorem persistence_regardless_of_mail_witness:
  "(\<forall>m. \<exists>s'. runBot (\<lambda>l. l) (sample_cycle (Response 200 (chat_completion clean_reply)) m)
                  initial_bot = (Inr (), s')
        \<and> history_file s' = Document (JArr [JStr (asc ''A'')])
        \<and> dashboard_file s' = Document (JArr [news_item ''A'' ''B'' ''good'']))
   \<and> (\<forall>m. history_file (snd (runBot (\<lambda>l. l) (sample_cycle NetworkFailure m) initial_bot)) = Absent
        \<and> dashboard_file (snd (runBot (\<lambda>l. l) (sample_cycle NetworkFailure m) initial_bot)) = Absent)"
proof -
  have past: "getPastHeadlines initial_bot = JArr []"
    by (simp add: getPastHeadlines_def initial_bot_def)
  have ok: "readable_store initial_bot"
    by (simp add: readable_store_def initial_bot_def)
  have quiet: "fst (fetchNews (\<lambda>l. l) (JArr []) NetworkFailure initial_bot) = Inr None"
    by (rule fetchNews_request_fails [of _ RequestError]) (simp add: axios_post_def)
  have set_mail: "sample_cycle r Sent\<lparr>mail := m\<rparr> = sample_cycle r m" for r m
    by (simp add: sample_cycle_def)
  have stored: "json_stored (news_item ''A'' ''B'' ''good'') = news_item ''A'' ''B'' ''good''"
    "stored_title (news_item ''A'' ''B'' ''good'') = JStr (asc ''A'')"
    by (simp_all add: news_item_def stored_title_def stored_elem_def title_of_def asc_def)
  have fetch: "fetchNews (\<lambda>l. l) (getPastHeadlines initial_bot)
      (reply (sample_cycle (Response 200 (chat_completion clean_reply)) Sent)) initial_bot =
      (Inr (Some [news_item ''A'' ''B'' ''good'']),
       initial_bot\<lparr>currentGeneration := Some (JStr clean_reply)\<rparr>)"
    by (simp add: past sample_cycle_def fetch_clean_reply)
  have disk: "write_history (sample_cycle r Sent) = Written"
    "write_dashboard (sample_cycle r Sent) = Written" for r
    by (simp_all add: sample_cycle_def)
  have quiet': "fst (fetchNews (\<lambda>l. l) (getPastHeadlines initial_bot)
      (reply (sample_cycle NetworkFailure Sent)) initial_bot) = Inr None"
    by (simp add: past sample_cycle_def quiet)
  have files: "headlines initial_bot = []" "digest initial_bot = []"
    "history_file initial_bot = Absent" "dashboard_file initial_bot = Absent"
    by (simp_all add: headlines_def digest_def initial_bot_def)
  from persistence_regardless_of_mail
      [of "\<lambda>l. l" initial_bot "sample_cycle (Response 200 (chat_completion clean_reply)) Sent"
          "[news_item ''A'' ''B'' ''good'']" _ _]
    fetch render_one_good disk ok
  have first: "\<forall>m. \<exists>s'. runBot (\<lambda>l. l) (sample_cycle (Response 200 (chat_completion clean_reply)) m)
                  initial_bot = (Inr (), s')
        \<and> history_file s' = Document (JArr [JStr (asc ''A'')])
        \<and> dashboard_file s' = Document (JArr [news_item ''A'' ''B'' ''good''])"
    by (simp add: set_mail stored files last_n_def) blast
  from persistence_regardless_of_mail
      [of "\<lambda>l. l" initial_bot "sample_cycle NetworkFailure Sent"] quiet'
  have second: "\<forall>m. history_file (snd (runBot (\<lambda>l. l) (sample_cycle NetworkFailure m) initial_bot)) = Absent
        \<and> dashboard_file (snd (runBot (\<lambda>l. l) (sample_cycle NetworkFailure m) initial_bot)) = Absent"
    by (simp add: set_mail files)
  from first second show ?thesis by blast
qed

lemma filter_type_skip:
  "get_field x (asc ''type'') = Inr t \<Longrightarrow> t \<noteq> Some (JStr k) \<Longrightarrow>
     filter_type k (xs @ x # ys) = filter_type k (xs @ ys)"
  by (induction xs) (auto split: sum.splits)

lemma generateHtml_skip:
  assumes "get_field x (asc ''type'') = Inr t" "t \<noteq> Some (JStr (asc ''good''))"
    "t \<noteq> Some (JStr (asc ''shocking''))"
  shows "generateHtml ts (xs @ x # ys) = generateHtml ts (xs @ ys)"
  using assms by (simp add: generateHtml_def filter_type_skip)

lemma generateHtml_nonempty: "generateHtml ts items = Inr html \<Longrightarrow> html \<noteq> []"
  by (auto simp: generateHtml_def and_then_def page_open_def split: sum.splits)

lemma last_n_member: "length zs < n \<Longrightarrow> x \<in> set (last_n n (ws @ x # zs))"
proof -
  assume "length zs < n"
  then have "length ws + Suc (length zs) - n \<le> length ws" by arith
  then have "drop (length ws + Suc (length zs) - n) (ws @ x # zs)
      = drop (length ws + Suc (length zs) - n) ws @ x # zs"
    by simp
  then show ?thesis by (simp add: last_n_def)
qed

lemma content_of_completion:
  "message_content (chat_completion (c # cs)) = Inr (Some (JStr (c # cs)))"
  by (simp add: message_content_def chat_completion_def and_then_def length_is_zero_def
      first_item_def get_field_opt_def asc_def)

lemma extract_mixed_reply:
  "extract_news num mixed_reply = Some [news_item ''A'' ''B'' ''good'', untyped_item]"
  by (simp add: mixed_reply_def news_item_def untyped_item_def text_eval parse_eval news_eval)

lemma fetch_mixed_reply:
  "fetchNews num (JArr []) (Response 200 (chat_completion mixed_reply)) s =
     (Inr (Some [news_item ''A'' ''B'' ''good'', untyped_item]),
      s\<lparr>currentGeneration := Some (JStr mixed_reply)\<rparr>)"
proof -
  have "mixed_reply \<noteq> []" by (simp add: mixed_reply_def asc_def)
  then obtain c cs where "mixed_reply = c # cs" by (cases mixed_reply) auto
  with content_of_completion [of c cs]
  have "message_content (chat_completion mixed_reply) = Inr (Some (JStr mixed_reply))" by simp
  then show ?thesis
    by (simp add: fetchNews_def fetchNews_try_def join_method_def axios_post_def and_then_def
        extract_mixed_reply)
qed

text \<open>
  Claim C10. Let one item \<open>x\<close> of the extracted list \<open>xs @ x # ys\<close> have a category (its
  \<open>type\<close>) that is neither \<open>good\<close> nor \<open>shocking\<close>, or none. The page rendered for the
  list is the page rendered for the list without \<open>x\<close>, so \<open>x\<close> is in no section; that
  page is what the mail holds. The persistence step still appends the title of \<open>x\<close> and
  the record \<open>x\<close> at their place among the new entries: they are in the files unless 50
  (or 20) later items of the same cycle push them out.
\<close>

theorem uncategorised_item:
  assumes x: "get_field x (asc ''type'') = Inr t" "t \<noteq> Some (JStr (asc ''good''))"
      "t \<noteq> Some (JStr (asc ''shocking''))"
    and fetch: "fetchNews num (getPastHeadlines s) (reply env) s = (Inr (Some (xs @ x # ys)), s1)"
    and render: "generateHtml (stamp env) (xs @ ys) = Inr html"
    and disk: "write_history env = Written" "write_dashboard env = Written"
    and store: "readable_store s"
  shows "generateHtml (stamp env) (xs @ x # ys) = Inr html
       \<and> (\<exists>s'. runBot num env s = (Inr (), s')
             \<and> outbox s' = (if mail env = Sent then outbox s @ [html] else outbox s)
             \<and> history_file s' =
                 Document (JArr (last_n 50 (map json_stored (headlines s) @ map stored_title xs
                                              @ stored_title x # map stored_title ys)))
             \<and> dashboard_file s' =
                 Document (JArr (last_n 20 (map json_stored (digest s) @ map json_stored xs
                                              @ json_stored x # map json_stored ys)))
             \<and> (length ys < 50 \<longrightarrow> stored_title x \<in> set (headlines s'))
             \<and> (length ys < 20 \<longrightarrow> json_stored x \<in> set (digest s')))"
proof -
  have page: "generateHtml (stamp env) (xs @ x # ys) = Inr html"
    using x render by (simp add: generateHtml_skip)
  have nonempty: "html \<noteq> []" using render by (rule generateHtml_nonempty)
  let ?h = "last_n 50 (map json_stored (headlines s) @ map stored_title xs
                        @ stored_title x # map stored_title ys)"
  let ?d = "last_n 20 (map json_stored (digest s) @ map json_stored xs
                        @ json_stored x # map json_stored ys)"
  let ?s' = "s1\<lparr>history_file := Document (JArr ?h), dashboard_file := Document (JArr ?d),
                nextRunTime := Some (new_Date (now env + 10 * 60000)),
                outbox := (if mail env = Sent \<and> html \<noteq> [] then outbox s @ [html] else outbox s)\<rparr>"
  have run: "runBot num env s = (Inr (), ?s')"
    using runBot_news [OF fetch _ page disk store] by simp
  have h: "length ys < 50 \<longrightarrow> stored_title x \<in> set ?h"
    using last_n_member [of "map stored_title ys" 50 "stored_title x"
        "map json_stored (headlines s) @ map stored_title xs"]
    by simp
  have d: "length ys < 20 \<longrightarrow> json_stored x \<in> set ?d"
    using last_n_member [of "map json_stored ys" 20 "json_stored x"
        "map json_stored (digest s) @ map json_stored xs"]
    by simp
  from page run h d nonempty show ?thesis
    by (simp add: headlines_def digest_def)
qed

theorem uncategorised_item_witness:
  "generateHtml (asc ''1/1/2026, 10:00:00 AM'') [news_item ''A'' ''B'' ''good'', untyped_item]
     = generateHtml (asc ''1/1/2026, 10:00:00 AM'') [news_item ''A'' ''B'' ''good'']
   \<and> (\<exists>s'. runBot (\<lambda>l. l) (sample_cycle (Response 200 (chat_completion mixed_reply)) Sent) initial_bot
              = (Inr (), s')
          \<and> Inr (last (outbox s')) = generateHtml (asc ''1/1/2026, 10:00:00 AM'') [news_item ''A'' ''B'' ''good'']
          \<and> history_file s' = Document (JArr [JStr (asc ''A''), JStr (asc ''C'')])
          \<and> dashboard_file s' = Document (JArr [news_item ''A'' ''B'' ''good'', untyped_item]))"
proof -
  let ?env = "sample_cycle (Response 200 (chat_completion mixed_reply)) Sent"
  have x: "get_field untyped_item (asc ''type'') = Inr None"
    by (simp add: untyped_item_def asc_def)
  have past: "getPastHeadlines initial_bot = JArr []"
    by (simp add: getPastHeadlines_def initial_bot_def)
  have fetch: "fetchNews (\<lambda>l. l) (getPastHeadlines initial_bot) (reply ?env) initial_bot =
      (Inr (Some ([news_item ''A'' ''B'' ''good''] @ untyped_item # [])),
       initial_bot\<lparr>currentGeneration := Some (JStr mixed_reply)\<rparr>)"
    by (simp add: past sample_cycle_def fetch_mixed_reply)
  have render: "generateHtml (stamp ?env) ([news_item ''A'' ''B'' ''good''] @ []) =
      Inr (page_open @ LOGO_URL @ page_header @ stamp ?env @ page_body
          @ good_heading
          @ card_open @ asc ''#27ae60'' @ card_title @ asc ''A'' @ card_summary @ asc ''B''
          @ card_close @ good_close @ page_between @ page_close)"
    by (simp add: render_one_good)
  have disk: "write_history ?env = Written" "write_dashboard ?env = Written"
    by (simp_all add: sample_cycle_def)
  have ok: "readable_store initial_bot"
    by (simp add: readable_store_def initial_bot_def)
  have stored: "json_stored (news_item ''A'' ''B'' ''good'') = news_item ''A'' ''B'' ''good''"
    "stored_title (news_item ''A'' ''B'' ''good'') = JStr (asc ''A'')"
    "json_stored untyped_item = untyped_item"
    "stored_title untyped_item = JStr (asc ''C'')"
    by (simp_all add: news_item_def untyped_item_def stored_title_def stored_elem_def
        title_of_def asc_def)
  have files: "headlines initial_bot = []" "digest initial_bot = []" "outbox initial_bot = []"
    by (simp_all add: headlines_def digest_def initial_bot_def)
  have st: "stamp ?env = asc ''1/1/2026, 10:00:00 AM''" "mail ?env = Sent"
    by (simp_all add: sample_cycle_def)
  from uncategorised_item [OF x _ _ fetch render disk ok]
  show ?thesis
    by (auto simp: stored files last_n_def st render_one_good)
qed

end
